theory Spec2Isabelle
  imports Main
begin

section \<open>The debug viewlet (src/vs/workbench/contrib/debug/browser/debugViewlet.ts)\<close>

text \<open>
  A shallow embedding of the class \<open>DebugViewlet\<close>. The viewlet is a record of its
  fields; every method takes the viewlet and returns it updated. Panels are objects with
  identity, compared by reference in the source (\<open>view === this.breakpointView\<close>) and by
  id (\<open>panel.id === BREAKPOINTS_VIEW_ID\<close>), so they live in a store indexed by
  reference. Calls to the collaborators the viewlet is injected with (progress service,
  title area, instantiation service, menu service, disposal, focus) are recorded in a
  trace.
\<close>

subsection \<open>Data\<close>

text \<open>The states of the debug service (\<open>State\<close> of common/debug).\<close>

datatype State = Inactive | Initializing | Stopped | Running

text \<open>
  A body size is a JavaScript number that the viewlet only copies and replaces by
  \<open>Number.POSITIVE_INFINITY\<close>; it does no arithmetic on it.
\<close>

datatype number = Pixels int | POSITIVE_INFINITY

text \<open>
  A \<open>ViewletPanel\<close>, as far as the viewlet reads and writes it. \<open>onDidChange\<close> holds the
  tokens of the live subscriptions of its "changed" event.
\<close>

record ViewletPanel =
  panel_id :: string
  isExpanded :: bool
  minimumBodySize :: number
  maximumBodySize :: number
  onDidChange :: "nat list"

type_synonym panel_ref = nat

text \<open>The argument of \<open>addPanels\<close>: \<open>{ panel: ViewletPanel, size: number, index?: number }\<close>.\<close>

record panel_arg =
  panel :: panel_ref
  size :: number
  index :: "nat option"

text \<open>The classes of the actions an action bar can hold, and an action object.\<close>

datatype action_class =
  StartAction | ConfigureAction | ToggleReplAction | SelectAndStartAction
  | FocusSessionAction | MenuItemAction | OtherAction

record action =
  action_id :: string
  label :: string
  cls :: action_class
  obj :: nat

datatype MenuId = DebugToolbar | OtherMenu nat

record menu =
  menu_id :: MenuId
  menu_obj :: nat

text \<open>
  What can be disposed: the subscription of a panel's event (panel and token), an action,
  a menu, the subscription of a service's event (by the name of the event).
\<close>

datatype disposable =
  Listener panel_ref nat | ActionObj action | MenuObj menu | ServiceListener string

datatype action_item =
  StartDebugActionItem nat action
  | FocusSessionActionItem action
  | MenuItemActionItem action

text \<open>The calls to collaborators that the viewlet makes, in order.\<close>

datatype effect =
  ProgressDone nat
  | ProgressShow bool nat
  | UpdateTitleArea
  | Disposed disposable
  | CreateInstance action_class nat
  | CreateActionItem nat
  | CreateMenu MenuId nat
  | SuperFocus
  | ActionItemFocus action_item

text \<open>
  Constants that the file imports from modules outside it (debug, debugActions); their
  values are parameters of the model.
\<close>

record imported =
  BREAKPOINTS_VIEW_ID :: string
  StartAction_ID :: string
  StartAction_LABEL :: string
  ConfigureAction_ID :: string
  ConfigureAction_LABEL :: string
  SelectAndStartAction_ID :: string
  FocusSessionAction_ID :: string

text \<open>
  The viewlet: its own fields (lines 39-43), the slots of the memoized getters, the
  fields of its base classes that it uses (\<open>panels\<close>, \<open>toDispose\<close>), the services it reads
  (\<open>debugService.state\<close>, the configuration value \<open>debug.toolBarLocation\<close>, the menu
  registry), the store of panels, the allocator of fresh objects and the trace.
\<close>

record DebugViewlet =
  startDebugActionItem :: "action_item option"
  progressRunner :: "nat option"
  breakpointView :: "panel_ref option"
  panelListeners :: "string \<rightharpoonup> disposable"
  debugToolbarMenu :: "menu option"
  memoized :: "string \<rightharpoonup> action"
  panels :: "panel_ref list"
  toDispose :: "disposable list"
  debugService_state :: State
  toolBarLocation :: string
  menuRegistry :: "MenuId \<Rightarrow> action list"
  store :: "panel_ref \<Rightarrow> ViewletPanel"
  fresh :: nat
  trace :: "effect list"

subsection \<open>Collaborators\<close>

text \<open>
  Modelled from the spec: the disposal-tracking convention of the base class
  (\<open>_register\<close>, \<open>toDispose\<close>), which is missing from the sources: "every acquired
  subscription/handle is registered for automatic release".
\<close>

definition register :: "disposable \<Rightarrow> DebugViewlet \<Rightarrow> DebugViewlet" where
  "register d v = v\<lparr>toDispose := toDispose v @ [d]\<rparr>"

text \<open>
  Modelled from the spec: the instantiation service, missing from the sources. It
  constructs a new object of the class asked for.
\<close>

definition createInstance ::
  "action_class \<Rightarrow> string \<Rightarrow> string \<Rightarrow> DebugViewlet \<Rightarrow> action \<times> DebugViewlet" where
  "createInstance c i l v =
     (\<lparr>action_id = i, label = l, cls = c, obj = fresh v\<rparr>,
      v\<lparr>fresh := Suc (fresh v), trace := trace v @ [CreateInstance c (fresh v)]\<rparr>)"

text \<open>
  Modelled from the spec: the \<open>memoize\<close> decorator, missing from the sources:
  "lazily-initialized fields guarded by a simple already-constructed check". The slot is
  keyed by the name of the getter.
\<close>

definition memoize ::
  "string \<Rightarrow> (DebugViewlet \<Rightarrow> action \<times> DebugViewlet) \<Rightarrow> DebugViewlet \<Rightarrow> action \<times> DebugViewlet" where
  "memoize key fn v =
     (case memoized v key of
        Some a \<Rightarrow> (a, v)
      | None \<Rightarrow>
          (case fn v of (a, v1) \<Rightarrow> (a, v1\<lparr>memoized := (memoized v1)(key \<mapsto> a)\<rparr>)))"

text \<open>
  Modelled from the spec: the menu service, missing from the sources: "given a menu
  identifier and a context-key scope, returns a live menu object whose contributed
  actions can be enumerated".
\<close>

definition createMenu :: "MenuId \<Rightarrow> DebugViewlet \<Rightarrow> menu \<times> DebugViewlet" where
  "createMenu m v =
     (\<lparr>menu_id = m, menu_obj = fresh v\<rparr>,
      v\<lparr>fresh := Suc (fresh v), trace := trace v @ [CreateMenu m (fresh v)]\<rparr>)"

text \<open>
  Modelled from the spec: \<open>DebugToolbar.getActions\<close>, missing from the sources: "the
  toolbar-menu's contributed actions (externally defined via a menu registry, filtered to
  the debug-toolbar menu id)".
\<close>

definition DebugToolbar_getActions :: "menu \<Rightarrow> DebugViewlet \<Rightarrow> action list" where
  "DebugToolbar_getActions m v = menuRegistry v (menu_id m)"

text \<open>
  Modelled from the spec: the progress service, missing from the sources:
  "\<open>show(indeterminate: bool)\<close> returns a handle with a \<open>done()\<close> method".
\<close>

definition progressService_show :: "bool \<Rightarrow> DebugViewlet \<Rightarrow> nat \<times> DebugViewlet" where
  "progressService_show b v =
     (fresh v, v\<lparr>fresh := Suc (fresh v), trace := trace v @ [ProgressShow b (fresh v)]\<rparr>)"

definition progressRunner_done :: "nat \<Rightarrow> DebugViewlet \<Rightarrow> DebugViewlet" where
  "progressRunner_done r v = v\<lparr>trace := trace v @ [ProgressDone r]\<rparr>"

text \<open>
  Modelled from the spec: \<open>updateTitleArea\<close> of the base class, missing from the sources:
  "refresh the action bar (titles/icons/visible actions)".
\<close>

definition updateTitleArea :: "DebugViewlet \<Rightarrow> DebugViewlet" where
  "updateTitleArea v = v\<lparr>trace := trace v @ [UpdateTitleArea]\<rparr>"

text \<open>
  Modelled from the spec: the event of a panel, missing from the sources: subscribing to
  the "changed" notification gives a subscription that can be cancelled. The handler of
  every subscription the viewlet makes is \<open>() => this.updateBreakpointsMaxSize()\<close>.
\<close>

definition onDidChange_subscribe :: "panel_ref \<Rightarrow> DebugViewlet \<Rightarrow> disposable \<times> DebugViewlet" where
  "onDidChange_subscribe p v =
     (Listener p (fresh v),
      v\<lparr>store := (store v)(p := (store v p)\<lparr>onDidChange := onDidChange (store v p) @ [fresh v]\<rparr>),
        fresh := Suc (fresh v)\<rparr>)"

text \<open>
  Modelled from the spec: \<open>dispose\<close> of common/lifecycle, missing from the sources.
  Nothing happens for \<open>undefined\<close>; a subscription is cancelled; every disposal is traced.
\<close>

fun dispose :: "disposable option \<Rightarrow> DebugViewlet \<Rightarrow> DebugViewlet" where
  "dispose None v = v"
| "dispose (Some (Listener p t)) v =
     v\<lparr>store := (store v)(p := (store v p)\<lparr>onDidChange := removeAll t (onDidChange (store v p))\<rparr>),
       trace := trace v @ [Disposed (Listener p t)]\<rparr>"
| "dispose (Some d) v = v\<lparr>trace := trace v @ [Disposed d]\<rparr>"

text \<open>
  Modelled from the spec: \<open>addPanels\<close> and \<open>removePanels\<close> of the base class, missing from
  the sources: the panels become attached, and detached. Sizes and positions belong to
  the layout, which the viewlet does not read.
\<close>

definition super_addPanels :: "panel_arg list \<Rightarrow> DebugViewlet \<Rightarrow> DebugViewlet" where
  "super_addPanels ps v = v\<lparr>panels := panels v @ map panel ps\<rparr>"

definition super_removePanels :: "panel_ref list \<Rightarrow> DebugViewlet \<Rightarrow> DebugViewlet" where
  "super_removePanels ps v = v\<lparr>panels := fold remove1 ps (panels v)\<rparr>"

subsection \<open>The methods of the viewlet\<close>

text \<open>
  Lines 79-85. Modelled from the spec: \<open>focus\<close> of the base class and of the action item,
  missing from the sources, are traced ("focus delegation, purely pass-through").
\<close>

definition focus :: "DebugViewlet \<Rightarrow> DebugViewlet" where
  "focus v =
     (let v1 = v\<lparr>trace := trace v @ [SuperFocus]\<rparr>
      in case startDebugActionItem v1 of
           Some item \<Rightarrow> v1\<lparr>trace := trace v1 @ [ActionItemFocus item]\<rparr>
         | None \<Rightarrow> v1)"

text \<open>The memoized getters, lines 87-105.\<close>

definition startAction :: "imported \<Rightarrow> DebugViewlet \<Rightarrow> action \<times> DebugViewlet" where
  "startAction K =
     memoize ''startAction'' (\<lambda>v.
       case createInstance StartAction (StartAction_ID K) (StartAction_LABEL K) v of
         (a, v1) \<Rightarrow> (a, register (ActionObj a) v1))"

definition configureAction :: "imported \<Rightarrow> DebugViewlet \<Rightarrow> action \<times> DebugViewlet" where
  "configureAction K =
     memoize ''configureAction'' (\<lambda>v.
       case createInstance ConfigureAction (ConfigureAction_ID K) (ConfigureAction_LABEL K) v of
         (a, v1) \<Rightarrow> (a, register (ActionObj a) v1))"

text \<open>
  The id of line 200. The labels of lines 104 and 201 are the default messages that
  \<open>nls.localize\<close> is given.
\<close>

definition ToggleReplAction_ID :: string where
  "ToggleReplAction_ID = ''debug.toggleRepl''"

definition ToggleReplAction_LABEL :: string where
  "ToggleReplAction_LABEL = ''Debug Console''"

definition toggleReplAction :: "DebugViewlet \<Rightarrow> action \<times> DebugViewlet" where
  "toggleReplAction =
     memoize ''toggleReplAction'' (\<lambda>v.
       case createInstance ToggleReplAction ToggleReplAction_ID ToggleReplAction_LABEL v of
         (a, v1) \<Rightarrow> (a, register (ActionObj a) v1))"

definition selectAndStartAction :: "imported \<Rightarrow> DebugViewlet \<Rightarrow> action \<times> DebugViewlet" where
  "selectAndStartAction K =
     memoize ''selectAndStartAction'' (\<lambda>v.
       case createInstance SelectAndStartAction (SelectAndStartAction_ID K)
              ''Start Additional Session'' v of
         (a, v1) \<Rightarrow> (a, register (ActionObj a) v1))"

text \<open>Lines 119-122.\<close>

definition showInitialDebugActions :: "DebugViewlet \<Rightarrow> bool" where
  "showInitialDebugActions v =
     (let state = debugService_state v
      in state = Inactive \<or> toolBarLocation v \<noteq> ''docked'')"

text \<open>Lines 107-117.\<close>

definition getActions :: "imported \<Rightarrow> DebugViewlet \<Rightarrow> action list \<times> DebugViewlet" where
  "getActions K v =
     (if showInitialDebugActions v then
        (case startAction K v of (a1, v1) \<Rightarrow>
         case configureAction K v1 of (a2, v2) \<Rightarrow>
         case toggleReplAction v2 of (a3, v3) \<Rightarrow> ([a1, a2, a3], v3))
      else
        (case (case debugToolbarMenu v of
                 Some m \<Rightarrow> (m, v)
               | None \<Rightarrow>
                   (case createMenu DebugToolbar v of (m, v1) \<Rightarrow>
                      (m, register (MenuObj m) (v1\<lparr>debugToolbarMenu := Some m\<rparr>)))) of
           (m, v2) \<Rightarrow> (DebugToolbar_getActions m v2, v2)))"

text \<open>Lines 124-130.\<close>

definition getSecondaryActions :: "imported \<Rightarrow> DebugViewlet \<Rightarrow> action list \<times> DebugViewlet" where
  "getSecondaryActions K v =
     (if showInitialDebugActions v then ([], v)
      else
        (case selectAndStartAction K v of (a1, v1) \<Rightarrow>
         case configureAction K v1 of (a2, v2) \<Rightarrow>
         case toggleReplAction v2 of (a3, v3) \<Rightarrow> ([a1, a2, a3], v3)))"

text \<open>Lines 132-145. The result \<open>None\<close> is the source's \<open>null\<close>.\<close>

definition getActionItem ::
  "imported \<Rightarrow> action \<Rightarrow> DebugViewlet \<Rightarrow> action_item option \<times> DebugViewlet" where
  "getActionItem K a v =
     (if action_id a = StartAction_ID K then
        (let item = StartDebugActionItem (fresh v) a;
             v1 = v\<lparr>fresh := Suc (fresh v), trace := trace v @ [CreateActionItem (fresh v)]\<rparr>
         in (Some item, v1\<lparr>startDebugActionItem := Some item\<rparr>))
      else if action_id a = FocusSessionAction_ID K then (Some (FocusSessionActionItem a), v)
      else if cls a = MenuItemAction then (Some (MenuItemActionItem a), v)
      else (None, v))"

text \<open>Lines 154-166.\<close>

definition onDebugServiceStateChange :: "State \<Rightarrow> DebugViewlet \<Rightarrow> DebugViewlet" where
  "onDebugServiceStateChange state v =
     (let v1 = (case progressRunner v of Some r \<Rightarrow> progressRunner_done r v | None \<Rightarrow> v);
          v2 = (if state = Initializing then
                  (case progressService_show True v1 of (r, w) \<Rightarrow> w\<lparr>progressRunner := Some r\<rparr>)
                else v1)
      in if toolBarLocation v2 = ''docked'' then updateTitleArea v2 else v2)"

text \<open>Lines 190-196.\<close>

definition updateBreakpointsMaxSize :: "DebugViewlet \<Rightarrow> DebugViewlet" where
  "updateBreakpointsMaxSize v =
     (case breakpointView v of
        None \<Rightarrow> v
      | Some b \<Rightarrow>
          (let allOtherCollapsed =
                 list_all (\<lambda>view. \<not> isExpanded (store v view) \<or> view = b) (panels v)
           in v\<lparr>store := (store v)(b := (store v b)\<lparr>maximumBodySize :=
                  (if allOtherCollapsed then POSITIVE_INFINITY
                   else minimumBodySize (store v b))\<rparr>)\<rparr>))"

text \<open>Lines 168-180: the body of the loop, and the method.\<close>

definition addPanels_body :: "imported \<Rightarrow> panel_arg \<Rightarrow> DebugViewlet \<Rightarrow> DebugViewlet" where
  "addPanels_body K e v =
     (if panel_id (store v (panel e)) = BREAKPOINTS_VIEW_ID K then
        updateBreakpointsMaxSize (v\<lparr>breakpointView := Some (panel e)\<rparr>)
      else
        (case onDidChange_subscribe (panel e) v of (d, v1) \<Rightarrow>
           v1\<lparr>panelListeners := (panelListeners v1)(panel_id (store v (panel e)) \<mapsto> d)\<rparr>))"

definition addPanels :: "imported \<Rightarrow> panel_arg list \<Rightarrow> DebugViewlet \<Rightarrow> DebugViewlet" where
  "addPanels K ps v = fold (addPanels_body K) ps (super_addPanels ps v)"

text \<open>Lines 182-188.\<close>

definition removePanels_body :: "panel_ref \<Rightarrow> DebugViewlet \<Rightarrow> DebugViewlet" where
  "removePanels_body p v =
     (let v1 = dispose (panelListeners v (panel_id (store v p))) v
      in v1\<lparr>panelListeners := (panelListeners v1)(panel_id (store v1 p) := None)\<rparr>)"

definition removePanels :: "panel_ref list \<Rightarrow> DebugViewlet \<Rightarrow> DebugViewlet" where
  "removePanels ps v = fold removePanels_body ps (super_removePanels ps v)"

text \<open>
  Modelled from the spec: the firing of an event, missing from the sources. A panel fires
  its "changed" notification: every live subscription runs its handler, which is the
  recomputation of the breakpoints panel's maximum size (line 177).
\<close>

definition fire_onDidChange :: "panel_ref \<Rightarrow> DebugViewlet \<Rightarrow> DebugViewlet" where
  "fire_onDidChange p v = fold (\<lambda>t. updateBreakpointsMaxSize) (onDidChange (store v p)) v"

text \<open>
  Modelled from the spec: a panel is expanded or collapsed, which fires its "changed"
  notification (layout/expand/collapse).
\<close>

definition setExpanded :: "panel_ref \<Rightarrow> bool \<Rightarrow> DebugViewlet \<Rightarrow> DebugViewlet" where
  "setExpanded p b v =
     fire_onDidChange p (v\<lparr>store := (store v)(p := (store v p)\<lparr>isExpanded := b\<rparr>)\<rparr>)"

text \<open>
  The viewlet as its constructor leaves it (lines 39-43 and 62-72), with the three
  subscriptions of lines 65-71 registered for disposal.
\<close>

definition new_DebugViewlet ::
  "State \<Rightarrow> string \<Rightarrow> (MenuId \<Rightarrow> action list) \<Rightarrow> (panel_ref \<Rightarrow> ViewletPanel) \<Rightarrow> DebugViewlet" where
  "new_DebugViewlet st loc reg sto =
     \<lparr>startDebugActionItem = None, progressRunner = None, breakpointView = None,
      panelListeners = Map.empty, debugToolbarMenu = None, memoized = Map.empty,
      panels = [],
      toDispose =
        [ServiceListener ''onDidChangeState'', ServiceListener ''onDidChangeWorkbenchState'',
         ServiceListener ''onDidChangeConfiguration''],
      debugService_state = st, toolBarLocation = loc,
      menuRegistry = reg, store = sto, fresh = 0, trace = []\<rparr>"

subsection \<open>The calls the viewlet receives\<close>

text \<open>
  The host calls the public methods; the debug service, the configuration service and
  the workspace service fire the events the constructor subscribed to (lines 65-71); a
  panel fires its "changed" event.
\<close>

datatype call =
  AddPanels "panel_arg list"
  | RemovePanels "panel_ref list"
  | SetExpanded panel_ref bool
  | FireDidChange panel_ref
  | GetActions
  | GetSecondaryActions
  | GetActionItem action
  | Focus
  | DidChangeState State
  | DidChangeConfiguration string
  | DidChangeWorkbenchState

fun exec :: "imported \<Rightarrow> call \<Rightarrow> DebugViewlet \<Rightarrow> DebugViewlet" where
  "exec K (AddPanels ps) v = addPanels K ps v"
| "exec K (RemovePanels ps) v = removePanels ps v"
| "exec K (SetExpanded p b) v = setExpanded p b v"
| "exec K (FireDidChange p) v = fire_onDidChange p v"
| "exec K GetActions v = snd (getActions K v)"
| "exec K GetSecondaryActions v = snd (getSecondaryActions K v)"
| "exec K (GetActionItem a) v = snd (getActionItem K a v)"
| "exec K Focus v = focus v"
| "exec K (DidChangeState st) v = onDebugServiceStateChange st (v\<lparr>debugService_state := st\<rparr>)"
| "exec K (DidChangeConfiguration loc) v = updateTitleArea (v\<lparr>toolBarLocation := loc\<rparr>)"
| "exec K DidChangeWorkbenchState v = updateTitleArea v"

definition run :: "imported \<Rightarrow> call list \<Rightarrow> DebugViewlet \<Rightarrow> DebugViewlet" where
  "run K cs v = fold (exec K) cs v"

definition ids_of :: "DebugViewlet \<Rightarrow> panel_ref list \<Rightarrow> string list" where
  "ids_of v ps = map (\<lambda>p. panel_id (store v p)) ps"

text \<open>The attached panels other than breakpoints panels.\<close>

definition siblings :: "imported \<Rightarrow> DebugViewlet \<Rightarrow> panel_ref list" where
  "siblings K v = filter (\<lambda>p. panel_id (store v p) \<noteq> BREAKPOINTS_VIEW_ID K) (panels v)"

text \<open>
  The contract of the view framework on attaching and detaching, as far as the
  panel-listener map depends on it: the non-breakpoints panels attached by one call have
  ids that differ from each other and from the ids of the attached non-breakpoints
  panels, and a panel that is detached is attached, or has the id of no attached
  non-breakpoints panel (as when it is detached a second time).
\<close>

fun call_ok :: "imported \<Rightarrow> call \<Rightarrow> DebugViewlet \<Rightarrow> bool" where
  "call_ok K (AddPanels es) v =
     (distinct
        (ids_of v (filter (\<lambda>p. panel_id (store v p) \<noteq> BREAKPOINTS_VIEW_ID K) (map panel es))) \<and>
      list_all (\<lambda>i. i \<notin> set (ids_of v (siblings K v)))
        (ids_of v (filter (\<lambda>p. panel_id (store v p) \<noteq> BREAKPOINTS_VIEW_ID K) (map panel es))))"
| "call_ok K (RemovePanels ps) v =
     list_all
       (\<lambda>p. p \<in> set (panels v) \<or> panel_id (store v p) \<notin> set (ids_of v (siblings K v))) ps"
| "call_ok K c v = True"

fun calls_ok :: "imported \<Rightarrow> call list \<Rightarrow> DebugViewlet \<Rightarrow> bool" where
  "calls_ok K [] v = True"
| "calls_ok K (c # cs) v = (call_ok K c v \<and> calls_ok K cs (exec K c v))"

text \<open>
  The entry of a panel in the panel-listener map is a live subscription of the "changed"
  event of that panel.
\<close>

definition subscribed :: "DebugViewlet \<Rightarrow> panel_ref \<Rightarrow> bool" where
  "subscribed v p =
     list_ex (\<lambda>t. panelListeners v (panel_id (store v p)) = Some (Listener p t))
       (onDidChange (store v p))"

text \<open>
  The invariant of the panel-listener map: the attached non-breakpoints panels have
  different ids, the keys of the map are their ids, and the entry of each of them is its
  subscription.
\<close>

definition panelListeners_inv :: "imported \<Rightarrow> DebugViewlet \<Rightarrow> bool" where
  "panelListeners_inv K v =
     (distinct (ids_of v (siblings K v)) \<and>
      dom (panelListeners v) = set (ids_of v (siblings K v)) \<and>
      list_all (subscribed v) (siblings K v))"

text \<open>The number of objects of a class that the instantiation service was asked for.\<close>

fun creates :: "action_class \<Rightarrow> effect \<Rightarrow> bool" where
  "creates c (CreateInstance c' n) = (c = c')"
| "creates c e = False"

definition instances_created :: "action_class \<Rightarrow> DebugViewlet \<Rightarrow> nat" where
  "instances_created c v = length (filter (creates c) (trace v))"

fun creates_menu :: "MenuId \<Rightarrow> effect \<Rightarrow> bool" where
  "creates_menu m (CreateMenu m' n) = (m = m')"
| "creates_menu m e = False"

definition menus_created :: "MenuId \<Rightarrow> DebugViewlet \<Rightarrow> nat" where
  "menus_created m v = length (filter (creates_menu m) (trace v))"

text \<open>
  The state of a memoized getter: nothing was created while its slot is empty; a filled
  slot holds the one object created, of the getter's class, id and label, registered for
  disposal.
\<close>

definition getter_inv ::
  "string \<Rightarrow> action_class \<Rightarrow> string \<Rightarrow> string \<Rightarrow> DebugViewlet \<Rightarrow> bool" where
  "getter_inv key c i l v =
     (case memoized v key of
        None \<Rightarrow> instances_created c v = 0
      | Some a \<Rightarrow>
          action_id a = i \<and> label a = l \<and> cls a = c \<and>
          ActionObj a \<in> set (toDispose v) \<and> instances_created c v = 1)"

definition menu_inv :: "DebugViewlet \<Rightarrow> bool" where
  "menu_inv v =
     (case debugToolbarMenu v of
        None \<Rightarrow> menus_created DebugToolbar v = 0
      | Some m \<Rightarrow>
          menu_id m = DebugToolbar \<and> MenuObj m \<in> set (toDispose v) \<and>
          menus_created DebugToolbar v = 1)"

definition actions_inv :: "imported \<Rightarrow> DebugViewlet \<Rightarrow> bool" where
  "actions_inv K v =
     (getter_inv ''startAction'' StartAction (StartAction_ID K) (StartAction_LABEL K) v \<and>
      getter_inv ''configureAction'' ConfigureAction (ConfigureAction_ID K)
        (ConfigureAction_LABEL K) v \<and>
      getter_inv ''toggleReplAction'' ToggleReplAction ToggleReplAction_ID
        ToggleReplAction_LABEL v \<and>
      getter_inv ''selectAndStartAction'' SelectAndStartAction (SelectAndStartAction_ID K)
        ''Start Additional Session'' v \<and>
      menu_inv v)"

subsection \<open>Predicates of the proofs\<close>

text \<open>
  Two viewlets agree on the objects the memoized getters and \<open>getActions\<close> own: the
  slots, the menu, the disposal list and the numbers of objects created.
\<close>

definition same_objects :: "DebugViewlet \<Rightarrow> DebugViewlet \<Rightarrow> bool" where
  "same_objects v w =
     (memoized w = memoized v \<and> debugToolbarMenu w = debugToolbarMenu v \<and>
      toDispose w = toDispose v \<and>
      (\<forall>c. instances_created c w = instances_created c v) \<and>
      (\<forall>m. menus_created m w = menus_created m v))"

text \<open>
  The panel-listener map holds exactly the subscriptions of the panels of a list: their
  ids differ, the keys of the map are their ids, and each entry is the subscription of
  its panel.
\<close>

definition listening :: "DebugViewlet \<Rightarrow> panel_ref list \<Rightarrow> bool" where
  "listening v L =
     (distinct (ids_of v L) \<and> dom (panelListeners v) = set (ids_of v L) \<and>
      list_all (subscribed v) L)"

text \<open>
  Two viewlets agree on the panel-listener map and on the ids and subscriptions of all
  panels.
\<close>

definition same_panels :: "DebugViewlet \<Rightarrow> DebugViewlet \<Rightarrow> bool" where
  "same_panels v w =
     (panelListeners w = panelListeners v \<and>
      (\<forall>p. panel_id (store w p) = panel_id (store v p)) \<and>
      (\<forall>p. onDidChange (store w p) = onDidChange (store v p)))"

text \<open>
  The sizing rule in the words of the specification: the maximum body size of the
  breakpoints panel \<open>b\<close> is unbounded if every attached panel other than \<open>b\<close> is
  collapsed, and the minimum body size of \<open>b\<close> otherwise. A viewlet is sized when the
  panel it remembers as the breakpoints panel has that maximum.
\<close>

definition breakpoints_maximum :: "DebugViewlet \<Rightarrow> panel_ref \<Rightarrow> number" where
  "breakpoints_maximum v b =
     (if list_all (\<lambda>p. p = b \<or> \<not> isExpanded (store v p)) (panels v)
      then POSITIVE_INFINITY else minimumBodySize (store v b))"

definition sized :: "DebugViewlet \<Rightarrow> bool" where
  "sized v =
     (case breakpointView v of
        None \<Rightarrow> True
      | Some b \<Rightarrow> maximumBodySize (store v b) = breakpoints_maximum v b)"

text \<open>
  The test of line 173 on an argument of \<open>addPanels\<close>.
\<close>

definition is_breakpoints :: "imported \<Rightarrow> DebugViewlet \<Rightarrow> panel_arg \<Rightarrow> bool" where
  "is_breakpoints K v e = (panel_id (store v (panel e)) = BREAKPOINTS_VIEW_ID K)"

text \<open>
  The entries that \<open>removePanels\<close> finds and disposes, in order, for the ids of the panels
  it is given: each lookup is followed by the deletion of the key.
\<close>

fun removed_entries :: "(string \<rightharpoonup> disposable) \<Rightarrow> string list \<Rightarrow> disposable list" where
  "removed_entries m [] = []"
| "removed_entries m (i # js) =
     (case m i of None \<Rightarrow> [] | Some d \<Rightarrow> [d]) @ removed_entries (m(i := None)) js"

text \<open>Every subscription in the map is stored under the id of its panel.\<close>

definition entries_own :: "DebugViewlet \<Rightarrow> bool" where
  "entries_own v =
     (\<forall>i q t. panelListeners v i = Some (Listener q t) \<longrightarrow> panel_id (store v q) = i)"

text \<open>
  A call cancels the subscriptions of a panel when it is a \<open>removePanels\<close> with a panel of
  the same id; a sequence of calls without such a call leaves them.
\<close>

fun cancels :: "call \<Rightarrow> DebugViewlet \<Rightarrow> panel_ref \<Rightarrow> bool" where
  "cancels (RemovePanels ps) v q = (panel_id (store v q) \<in> set (ids_of v ps))"
| "cancels c v q = False"

fun uncancelled :: "imported \<Rightarrow> call list \<Rightarrow> DebugViewlet \<Rightarrow> panel_ref \<Rightarrow> bool" where
  "uncancelled K [] v q = True"
| "uncancelled K (c # cs) v q = (\<not> cancels c v q \<and> uncancelled K cs (exec K c v) q)"

text \<open>
  A call attaches a breakpoints panel when it is an \<open>addPanels\<close> with a panel of the
  breakpoints id; a sequence of calls without such a call attaches none.
\<close>

fun attaches_breakpoints :: "imported \<Rightarrow> call \<Rightarrow> DebugViewlet \<Rightarrow> bool" where
  "attaches_breakpoints K (AddPanels es) v = list_ex (is_breakpoints K v) es"
| "attaches_breakpoints K c v = False"

fun no_breakpoints_attached :: "imported \<Rightarrow> call list \<Rightarrow> DebugViewlet \<Rightarrow> bool" where
  "no_breakpoints_attached K [] v = True"
| "no_breakpoints_attached K (c # cs) v =
     (\<not> attaches_breakpoints K c v \<and> no_breakpoints_attached K cs (exec K c v))"

subsection \<open>An example\<close>

text \<open>
  Values for the imported constants, and a store of panels: 0 and 3 are two
  breakpoints panel objects (a view that is hidden and shown again is a new object with
  the same id), 1 and 4 are two panel objects with the id of the variables view, 2 is the
  watch view, every other reference is a collapsed call-stack view. The example viewlet
  is new, with the debug service running and the toolbar docked.
\<close>

definition example_imported :: imported where
  "example_imported =
     \<lparr>BREAKPOINTS_VIEW_ID = ''breakpoints'', StartAction_ID = ''debug.start'',
      StartAction_LABEL = ''Start Debugging'', ConfigureAction_ID = ''debug.configure'',
      ConfigureAction_LABEL = ''Configure'', SelectAndStartAction_ID = ''debug.selectandstart'',
      FocusSessionAction_ID = ''debug.focusProcess''\<rparr>"

definition example_panel :: "string \<Rightarrow> bool \<Rightarrow> ViewletPanel" where
  "example_panel i e =
     \<lparr>panel_id = i, isExpanded = e, minimumBodySize = Pixels 100,
      maximumBodySize = Pixels 500, onDidChange = []\<rparr>"

definition example_store :: "panel_ref \<Rightarrow> ViewletPanel" where
  "example_store =
     (\<lambda>p. example_panel ''callstack'' False)
       (0 := example_panel ''breakpoints'' True,
        1 := example_panel ''variables'' True,
        2 := example_panel ''watch'' False,
        3 := example_panel ''breakpoints'' False,
        4 := example_panel ''variables'' True)"

definition example_viewlet :: DebugViewlet where
  "example_viewlet = new_DebugViewlet Running ''docked'' (\<lambda>m. []) example_store"

definition example_arg :: "panel_ref \<Rightarrow> panel_arg" where
  "example_arg p = \<lparr>panel = p, size = Pixels 200, index = None\<rparr>"

text \<open>
  Sequences of calls: the breakpoints panel attached together with an expanded sibling;
  the sibling attached after the breakpoints panel; both detached again, and then a new
  breakpoints panel attached; a longer sequence that respects the contract of the view
  framework; and one that attaches two panels with the same id and removes the first.
\<close>

definition attached_calls :: "call list" where
  "attached_calls = [AddPanels [example_arg 0, example_arg 1]]"

definition late_sibling_calls :: "call list" where
  "late_sibling_calls = [AddPanels [example_arg 0], AddPanels [example_arg 1]]"

definition detached_calls :: "call list" where
  "detached_calls = [AddPanels [example_arg 0, example_arg 1], RemovePanels [0, 1]]"

definition reattached_calls :: "call list" where
  "reattached_calls = detached_calls @ [AddPanels [example_arg 3]]"

definition example_calls :: "call list" where
  "example_calls =
     [AddPanels [example_arg 0, example_arg 1], AddPanels [example_arg 2],
      SetExpanded 1 False, RemovePanels [1]]"

definition duplicate_id_calls :: "call list" where
  "duplicate_id_calls = [AddPanels [example_arg 1, example_arg 4], RemovePanels [1]]"

text \<open>
  Two panels with the same id attached by one call, and by two calls; a \<open>removePanels\<close>
  with the detached panel 4, which has the id of the attached panel 1, alone and followed
  by the collapse of panel 1; the breakpoints panel detached, a new one attached, and the
  sibling collapsed; and two sequences that continue after an attach or a detach.
\<close>

definition duplicate_attach_calls :: "call list" where
  "duplicate_attach_calls = [AddPanels [example_arg 1, example_arg 4]]"

definition successive_duplicate_calls :: "call list" where
  "successive_duplicate_calls = [AddPanels [example_arg 1], AddPanels [example_arg 4]]"

definition stale_remove_calls :: "call list" where
  "stale_remove_calls = [AddPanels [example_arg 1], RemovePanels [4]]"

definition cancelled_calls :: "call list" where
  "cancelled_calls =
     [AddPanels [example_arg 0, example_arg 1], RemovePanels [4], SetExpanded 1 False]"

definition later_event_calls :: "call list" where
  "later_event_calls =
     [AddPanels [example_arg 0, example_arg 1], RemovePanels [0], AddPanels [example_arg 3],
      SetExpanded 1 False]"

definition kept_calls :: "call list" where
  "kept_calls = [SetExpanded 1 False, RemovePanels [0]]"

definition after_detach_calls :: "call list" where
  "after_detach_calls = [SetExpanded 1 False, AddPanels [example_arg 2]]"

section \<open>Properties\<close>

subsection \<open>The actions and the menu\<close>

lemma fold_keeps: "(\<And>x w. g (f x w) = g w) \<Longrightarrow> g (fold f xs v) = g v"
  by (induction xs arbitrary: v) simp_all

lemma getter_unfold:
  "memoize key (\<lambda>v. case createInstance c i l v of (a, v1) \<Rightarrow> (a, register (ActionObj a) v1)) v =
     (case memoized v key of
        Some a \<Rightarrow> (a, v)
      | None \<Rightarrow>
          (\<lparr>action_id = i, label = l, cls = c, obj = fresh v\<rparr>,
           v\<lparr>memoized := (memoized v)(key \<mapsto> \<lparr>action_id = i, label = l, cls = c, obj = fresh v\<rparr>),
             toDispose := toDispose v @ [ActionObj \<lparr>action_id = i, label = l, cls = c, obj = fresh v\<rparr>],
             fresh := Suc (fresh v),
             trace := trace v @ [CreateInstance c (fresh v)]\<rparr>))"
  by (simp add: memoize_def createInstance_def register_def split: option.splits)

lemmas getters_unfold =
  startAction_def configureAction_def toggleReplAction_def selectAndStartAction_def getter_unfold

lemma getter_twice:
  "memoize key (\<lambda>v. case createInstance c i l v of (a, v1) \<Rightarrow> (a, register (ActionObj a) v1))
     (snd (memoize key (\<lambda>v. case createInstance c i l v of (a, v1) \<Rightarrow> (a, register (ActionObj a) v1)) v))
   = memoize key (\<lambda>v. case createInstance c i l v of (a, v1) \<Rightarrow> (a, register (ActionObj a) v1)) v"
  by (simp add: getter_unfold split: option.splits)

lemma getter_inv_same:
  "getter_inv key c i l v \<Longrightarrow>
   getter_inv key c i l
     (snd (memoize key (\<lambda>v. case createInstance c i l v of (a, v1) \<Rightarrow> (a, register (ActionObj a) v1)) v))"
  by (simp add: getter_unfold getter_inv_def instances_created_def split: option.splits)

lemma getter_inv_other:
  "getter_inv key c i l v \<Longrightarrow> key' \<noteq> key \<Longrightarrow> c' \<noteq> c \<Longrightarrow>
   getter_inv key c i l
     (snd (memoize key' (\<lambda>v. case createInstance c' i' l' v of (a, v1) \<Rightarrow> (a, register (ActionObj a) v1)) v))"
  by (auto simp add: getter_unfold getter_inv_def instances_created_def split: option.splits)

lemma menu_inv_getter:
  "menu_inv v \<Longrightarrow>
   menu_inv
     (snd (memoize key' (\<lambda>v. case createInstance c' i' l' v of (a, v1) \<Rightarrow> (a, register (ActionObj a) v1)) v))"
  by (auto simp add: getter_unfold menu_inv_def menus_created_def split: option.splits)

lemma same_objects_refl: "same_objects v v"
  by (simp add: same_objects_def)

lemma same_objects_trans: "same_objects u v \<Longrightarrow> same_objects v w \<Longrightarrow> same_objects u w"
  by (simp add: same_objects_def)

lemma same_objects_fold:
  "(\<And>x w. same_objects w (f x w)) \<Longrightarrow> same_objects v (fold f xs v)"
proof (induction xs arbitrary: v)
  case Nil
  show ?case by (simp add: same_objects_refl)
next
  case (Cons x xs)
  have "same_objects v (f x v)" by (rule Cons.prems)
  moreover have "same_objects (f x v) (fold f xs (f x v))" by (rule Cons.IH) (rule Cons.prems)
  ultimately show ?case by (simp add: same_objects_trans [of v "f x v"])
qed

lemma same_objects_update: "same_objects v (updateBreakpointsMaxSize v)"
  by (simp add: same_objects_def updateBreakpointsMaxSize_def instances_created_def
      menus_created_def Let_def split: option.splits)

lemma same_objects_dispose: "same_objects v (dispose d v)"
  by (cases "(d, v)" rule: dispose.cases)
     (simp_all add: same_objects_def instances_created_def menus_created_def)

lemma same_objects_addPanels: "same_objects v (addPanels K ps v)"
proof -
  have body: "same_objects w (addPanels_body K x w)" for x w
    by (simp add: same_objects_def updateBreakpointsMaxSize_def instances_created_def
        menus_created_def Let_def addPanels_body_def onDidChange_subscribe_def split: option.splits)
  have "same_objects v (super_addPanels ps v)"
    by (simp add: same_objects_def super_addPanels_def instances_created_def menus_created_def)
  moreover have "same_objects (super_addPanels ps v) (fold (addPanels_body K) ps (super_addPanels ps v))"
    by (rule same_objects_fold) (rule body)
  ultimately show ?thesis
    unfolding addPanels_def by (rule same_objects_trans)
qed

lemma same_objects_removePanels: "same_objects v (removePanels ps v)"
proof -
  have body: "same_objects w (removePanels_body x w)" for x w
    using same_objects_dispose [of w "panelListeners w (panel_id (store w x))"]
    by (simp add: same_objects_def removePanels_body_def Let_def instances_created_def
        menus_created_def)
  have "same_objects v (super_removePanels ps v)"
    by (simp add: same_objects_def super_removePanels_def instances_created_def menus_created_def)
  moreover have "same_objects (super_removePanels ps v) (fold removePanels_body ps (super_removePanels ps v))"
    by (rule same_objects_fold) (rule body)
  ultimately show ?thesis
    unfolding removePanels_def by (rule same_objects_trans)
qed

lemma same_objects_fire: "same_objects v (fire_onDidChange p v)"
  unfolding fire_onDidChange_def
proof -
  have "same_objects w (fold (\<lambda>t. updateBreakpointsMaxSize) ts w)" for ts :: "nat list" and w
    by (rule same_objects_fold) (rule same_objects_update)
  then show "same_objects v (fold (\<lambda>t. updateBreakpointsMaxSize) (onDidChange (store v p)) v)" .
qed

lemma same_objects_setExpanded: "same_objects v (setExpanded p b v)"
proof -
  have "same_objects v (v\<lparr>store := (store v)(p := (store v p)\<lparr>isExpanded := b\<rparr>)\<rparr>)"
    by (simp add: same_objects_def instances_created_def menus_created_def)
  then show ?thesis
    unfolding setExpanded_def by (rule same_objects_trans) (rule same_objects_fire)
qed

lemma same_objects_getActionItem: "same_objects v (snd (getActionItem K a v))"
  by (simp add: same_objects_def getActionItem_def Let_def instances_created_def menus_created_def)

lemma same_objects_focus: "same_objects v (focus v)"
  by (simp add: same_objects_def focus_def Let_def instances_created_def menus_created_def
      split: option.splits)

lemma same_objects_stateChange:
  "same_objects v (onDebugServiceStateChange st (v\<lparr>debugService_state := st\<rparr>))"
  by (simp add: same_objects_def onDebugServiceStateChange_def Let_def instances_created_def
      menus_created_def progressRunner_done_def progressService_show_def updateTitleArea_def
      split: option.splits)

lemma same_objects_titleArea: "same_objects v (updateTitleArea v)"
  "same_objects v (updateTitleArea (v\<lparr>toolBarLocation := loc\<rparr>))"
  by (simp_all add: same_objects_def updateTitleArea_def instances_created_def menus_created_def)

lemma getter_inv_same_objects:
  "same_objects v w \<Longrightarrow> getter_inv key c i l w = getter_inv key c i l v"
  by (cases "memoized v key") (simp_all add: same_objects_def getter_inv_def)

lemma menu_inv_same_objects: "same_objects v w \<Longrightarrow> menu_inv w = menu_inv v"
  by (cases "debugToolbarMenu v") (simp_all add: same_objects_def menu_inv_def)

lemma actions_inv_same_objects: "same_objects v w \<Longrightarrow> actions_inv K v \<Longrightarrow> actions_inv K w"
  by (simp add: actions_inv_def getter_inv_same_objects menu_inv_same_objects)

lemma actions_inv_getters:
  assumes "actions_inv K v"
  shows "actions_inv K (snd (startAction K v))"
    and "actions_inv K (snd (configureAction K v))"
    and "actions_inv K (snd (toggleReplAction v))"
    and "actions_inv K (snd (selectAndStartAction K v))"
  using assms
  unfolding actions_inv_def startAction_def configureAction_def toggleReplAction_def
    selectAndStartAction_def
  by (simp_all add: getter_inv_same getter_inv_other menu_inv_getter)

lemma getActions_docked:
  "\<not> showInitialDebugActions v \<Longrightarrow>
   getActions K v =
     (case debugToolbarMenu v of
        Some m \<Rightarrow> (menuRegistry v (menu_id m), v)
      | None \<Rightarrow>
          (menuRegistry v DebugToolbar,
           v\<lparr>debugToolbarMenu := Some \<lparr>menu_id = DebugToolbar, menu_obj = fresh v\<rparr>,
             toDispose := toDispose v @ [MenuObj \<lparr>menu_id = DebugToolbar, menu_obj = fresh v\<rparr>],
             fresh := Suc (fresh v),
             trace := trace v @ [CreateMenu DebugToolbar (fresh v)]\<rparr>))"
  by (simp add: getActions_def createMenu_def register_def DebugToolbar_getActions_def
      split: option.splits)

lemma getter_inv_menu:
  "getter_inv key c i l v \<Longrightarrow>
   getter_inv key c i l
     (v\<lparr>debugToolbarMenu := x, toDispose := toDispose v @ [MenuObj m], fresh := n,
        trace := trace v @ [CreateMenu DebugToolbar k]\<rparr>)"
  by (cases "memoized v key") (simp_all add: getter_inv_def instances_created_def)

lemma actions_inv_getActions:
  assumes "actions_inv K v"
  shows "actions_inv K (snd (getActions K v))"
proof (cases "showInitialDebugActions v")
  case True
  have "actions_inv K (snd (toggleReplAction (snd (configureAction K (snd (startAction K v))))))"
    by (intro actions_inv_getters assms)
  with True show ?thesis
    by (simp add: getActions_def case_prod_beta)
next
  case False
  show ?thesis
  proof (cases "debugToolbarMenu v")
    case None
    with assms have "menus_created DebugToolbar v = 0"
      by (simp add: actions_inv_def menu_inv_def)
    with assms None False show ?thesis
      by (simp add: getActions_docked actions_inv_def getter_inv_menu)
         (simp add: menu_inv_def menus_created_def)
  next
    case (Some m)
    with assms False show ?thesis
      by (simp add: getActions_docked)
  qed
qed

lemma actions_inv_getSecondaryActions:
  assumes "actions_inv K v"
  shows "actions_inv K (snd (getSecondaryActions K v))"
proof (cases "showInitialDebugActions v")
  case True
  with assms show ?thesis by (simp add: getSecondaryActions_def)
next
  case False
  have "actions_inv K (snd (toggleReplAction (snd (configureAction K (snd (selectAndStartAction K v))))))"
    by (intro actions_inv_getters assms)
  with False show ?thesis
    by (simp add: getSecondaryActions_def case_prod_beta)
qed

lemma actions_inv_exec: "actions_inv K v \<Longrightarrow> actions_inv K (exec K c v)"
proof (cases c)
  case (AddPanels ps)
  then show "actions_inv K v \<Longrightarrow> ?thesis"
    using actions_inv_same_objects [OF same_objects_addPanels] by simp
next
  case (RemovePanels ps)
  then show "actions_inv K v \<Longrightarrow> ?thesis"
    using actions_inv_same_objects [OF same_objects_removePanels] by simp
next
  case (SetExpanded p b)
  then show "actions_inv K v \<Longrightarrow> ?thesis"
    using actions_inv_same_objects [OF same_objects_setExpanded] by simp
next
  case (FireDidChange p)
  then show "actions_inv K v \<Longrightarrow> ?thesis"
    using actions_inv_same_objects [OF same_objects_fire] by simp
next
  case GetActions
  then show "actions_inv K v \<Longrightarrow> ?thesis"
    by (simp add: actions_inv_getActions)
next
  case GetSecondaryActions
  then show "actions_inv K v \<Longrightarrow> ?thesis"
    by (simp add: actions_inv_getSecondaryActions)
next
  case (GetActionItem a)
  then show "actions_inv K v \<Longrightarrow> ?thesis"
    using actions_inv_same_objects [OF same_objects_getActionItem] by simp
next
  case Focus
  then show "actions_inv K v \<Longrightarrow> ?thesis"
    using actions_inv_same_objects [OF same_objects_focus] by simp
next
  case (DidChangeState st)
  then show "actions_inv K v \<Longrightarrow> ?thesis"
    using actions_inv_same_objects [OF same_objects_stateChange] by simp
next
  case (DidChangeConfiguration loc)
  then show "actions_inv K v \<Longrightarrow> ?thesis"
    using actions_inv_same_objects [OF same_objects_titleArea(2)] by simp
next
  case DidChangeWorkbenchState
  then show "actions_inv K v \<Longrightarrow> ?thesis"
    using actions_inv_same_objects [OF same_objects_titleArea(1)] by simp
qed

lemma actions_inv_fold: "actions_inv K v \<Longrightarrow> actions_inv K (fold (exec K) cs v)"
  by (induction cs arbitrary: v) (simp_all add: actions_inv_exec)

lemma actions_inv_new: "actions_inv K (new_DebugViewlet st loc reg sto)"
  by (simp add: actions_inv_def getter_inv_def menu_inv_def new_DebugViewlet_def
      instances_created_def menus_created_def)

lemma actions_inv_run: "actions_inv K (run K cs (new_DebugViewlet st loc reg sto))"
  unfolding run_def by (rule actions_inv_fold) (rule actions_inv_new)

lemma getter_value:
  "getter_inv key c i l v \<Longrightarrow>
   action_id (fst (memoize key (\<lambda>v. case createInstance c i l v of (a, v1) \<Rightarrow> (a, register (ActionObj a) v1)) v)) = i \<and>
   label (fst (memoize key (\<lambda>v. case createInstance c i l v of (a, v1) \<Rightarrow> (a, register (ActionObj a) v1)) v)) = l \<and>
   cls (fst (memoize key (\<lambda>v. case createInstance c i l v of (a, v1) \<Rightarrow> (a, register (ActionObj a) v1)) v)) = c"
  by (cases "memoized v key") (simp_all add: getter_unfold getter_inv_def)

lemma getter_registered:
  "getter_inv key c i l v \<Longrightarrow>
   ActionObj (fst (memoize key (\<lambda>v. case createInstance c i l v of (a, v1) \<Rightarrow> (a, register (ActionObj a) v1)) v))
     \<in> set (toDispose (snd (memoize key (\<lambda>v. case createInstance c i l v of (a, v1) \<Rightarrow> (a, register (ActionObj a) v1)) v)))"
  by (cases "memoized v key") (simp_all add: getter_unfold getter_inv_def)

lemma getter_values:
  assumes "actions_inv K v"
  shows "action_id (fst (startAction K v)) = StartAction_ID K"
    and "label (fst (startAction K v)) = StartAction_LABEL K"
    and "cls (fst (startAction K v)) = StartAction"
    and "action_id (fst (configureAction K v)) = ConfigureAction_ID K"
    and "label (fst (configureAction K v)) = ConfigureAction_LABEL K"
    and "cls (fst (configureAction K v)) = ConfigureAction"
    and "action_id (fst (toggleReplAction v)) = ToggleReplAction_ID"
    and "label (fst (toggleReplAction v)) = ToggleReplAction_LABEL"
    and "cls (fst (toggleReplAction v)) = ToggleReplAction"
    and "action_id (fst (selectAndStartAction K v)) = SelectAndStartAction_ID K"
    and "label (fst (selectAndStartAction K v)) = ''Start Additional Session''"
    and "cls (fst (selectAndStartAction K v)) = SelectAndStartAction"
  using assms
  unfolding actions_inv_def startAction_def configureAction_def toggleReplAction_def
    selectAndStartAction_def
  by (simp_all add: getter_value)

text \<open>
  Claim C3. In every state the viewlet reaches, \<open>getActions\<close> returns, when
  \<open>showInitialDebugActions\<close> holds, exactly three actions in this order: the Start action,
  the Configure action and the ToggleDebugConsole action (by class, id and label);
  otherwise it returns the actions that the menu registry contributes to the
  debug-toolbar menu.
\<close>

theorem getActions_primary:
  "let v = run K cs (new_DebugViewlet st loc reg sto); r = fst (getActions K v)
   in if showInitialDebugActions v then
        map cls r = [StartAction, ConfigureAction, ToggleReplAction] \<and>
        map action_id r = [StartAction_ID K, ConfigureAction_ID K, ToggleReplAction_ID] \<and>
        map label r = [StartAction_LABEL K, ConfigureAction_LABEL K, ToggleReplAction_LABEL]
      else r = menuRegistry v DebugToolbar"
proof -
  define v where "v = run K cs (new_DebugViewlet st loc reg sto)"
  have inv: "actions_inv K v"
    unfolding v_def by (rule actions_inv_run)
  have inv1: "actions_inv K (snd (startAction K v))"
    using inv by (rule actions_inv_getters)
  have inv2: "actions_inv K (snd (configureAction K (snd (startAction K v))))"
    using inv1 by (rule actions_inv_getters)
  have initial: "fst (getActions K v) =
      [fst (startAction K v), fst (configureAction K (snd (startAction K v))),
       fst (toggleReplAction (snd (configureAction K (snd (startAction K v)))))]"
    if "showInitialDebugActions v"
    using that by (simp add: getActions_def case_prod_beta)
  have docked: "fst (getActions K v) = menuRegistry v DebugToolbar"
    if "\<not> showInitialDebugActions v"
  proof (cases "debugToolbarMenu v")
    case None
    with that show ?thesis by (simp add: getActions_docked)
  next
    case (Some m)
    with inv have "menu_id m = DebugToolbar"
      by (simp add: actions_inv_def menu_inv_def)
    with that Some show ?thesis by (simp add: getActions_docked)
  qed
  show ?thesis
    unfolding Let_def v_def [symmetric]
    using initial docked getter_values [OF inv] getter_values [OF inv1] getter_values [OF inv2]
    by simp
qed

text \<open>
  Claim C5. In every state the viewlet reaches, \<open>getSecondaryActions\<close> returns the empty
  list when \<open>showInitialDebugActions\<close> holds, and otherwise exactly the
  Select-and-Start action labelled "Start Additional Session", the Configure action and
  the ToggleDebugConsole action, in this order.
\<close>

theorem getSecondaryActions_list:
  "let v = run K cs (new_DebugViewlet st loc reg sto); r = fst (getSecondaryActions K v)
   in if showInitialDebugActions v then r = []
      else
        map cls r = [SelectAndStartAction, ConfigureAction, ToggleReplAction] \<and>
        map action_id r = [SelectAndStartAction_ID K, ConfigureAction_ID K, ToggleReplAction_ID] \<and>
        map label r = [''Start Additional Session'', ConfigureAction_LABEL K, ToggleReplAction_LABEL]"
proof -
  define v where "v = run K cs (new_DebugViewlet st loc reg sto)"
  have inv: "actions_inv K v"
    unfolding v_def by (rule actions_inv_run)
  have inv1: "actions_inv K (snd (selectAndStartAction K v))"
    using inv by (rule actions_inv_getters)
  have inv2: "actions_inv K (snd (configureAction K (snd (selectAndStartAction K v))))"
    using inv1 by (rule actions_inv_getters)
  have initial: "fst (getSecondaryActions K v) = []" if "showInitialDebugActions v"
    using that by (simp add: getSecondaryActions_def)
  have docked: "fst (getSecondaryActions K v) =
      [fst (selectAndStartAction K v), fst (configureAction K (snd (selectAndStartAction K v))),
       fst (toggleReplAction (snd (configureAction K (snd (selectAndStartAction K v)))))]"
    if "\<not> showInitialDebugActions v"
    using that by (simp add: getSecondaryActions_def case_prod_beta)
  show ?thesis
    unfolding Let_def v_def [symmetric]
    using initial docked getter_values [OF inv] getter_values [OF inv1] getter_values [OF inv2]
    by simp
qed

lemma getter_count:
  "getter_inv key c i l v \<Longrightarrow> instances_created c v \<le> 1"
  by (cases "memoized v key") (simp_all add: getter_inv_def)

lemma actions_inv_counts:
  assumes "actions_inv K v"
  shows "instances_created StartAction v \<le> 1"
    and "instances_created ConfigureAction v \<le> 1"
    and "instances_created ToggleReplAction v \<le> 1"
    and "instances_created SelectAndStartAction v \<le> 1"
    and "menus_created DebugToolbar v \<le> 1"
proof -
  from assms show "menus_created DebugToolbar v \<le> 1"
    by (cases "debugToolbarMenu v") (simp_all add: actions_inv_def menu_inv_def)
qed (use assms in \<open>auto simp add: actions_inv_def dest: getter_count\<close>)

lemma getters_twice:
  "startAction K (snd (startAction K v)) = startAction K v"
  "configureAction K (snd (configureAction K v)) = configureAction K v"
  "toggleReplAction (snd (toggleReplAction v)) = toggleReplAction v"
  "selectAndStartAction K (snd (selectAndStartAction K v)) = selectAndStartAction K v"
  unfolding startAction_def configureAction_def toggleReplAction_def selectAndStartAction_def
  by (simp_all add: getter_twice)

lemma getters_registered:
  assumes "actions_inv K v"
  shows "ActionObj (fst (startAction K v)) \<in> set (toDispose (snd (startAction K v)))"
    and "ActionObj (fst (configureAction K v)) \<in> set (toDispose (snd (configureAction K v)))"
    and "ActionObj (fst (toggleReplAction v)) \<in> set (toDispose (snd (toggleReplAction v)))"
    and "ActionObj (fst (selectAndStartAction K v))
           \<in> set (toDispose (snd (selectAndStartAction K v)))"
  using assms
  unfolding actions_inv_def startAction_def configureAction_def toggleReplAction_def
    selectAndStartAction_def
  by (simp_all add: getter_registered)

lemma getActions_twice:
  assumes "\<not> showInitialDebugActions v"
  shows "getActions K (snd (getActions K v)) = getActions K v"
proof -
  have "\<not> showInitialDebugActions (snd (getActions K v))"
    using assms
    by (cases "debugToolbarMenu v") (simp_all add: getActions_docked showInitialDebugActions_def)
  with assms show ?thesis
    by (cases "debugToolbarMenu v") (simp_all add: getActions_docked)
qed

lemma getActions_menu:
  assumes "\<not> showInitialDebugActions v" and "menu_inv v"
  shows "case debugToolbarMenu (snd (getActions K v)) of
           None \<Rightarrow> False
         | Some m \<Rightarrow> menu_id m = DebugToolbar \<and> MenuObj m \<in> set (toDispose (snd (getActions K v)))"
  using assms
  by (cases "debugToolbarMenu v") (simp_all add: getActions_docked menu_inv_def)

text \<open>
  Claim C8. In every state the viewlet reaches, at most one object of each of the classes
  of the four memoized getters and at most one debug-toolbar menu have been created; a
  second read of a getter returns the same object and changes nothing; each object a
  getter returns is registered for disposal; and outside the initial mode a second
  \<open>getActions\<close> returns the same actions and leaves the viewlet as the first did, with
  the one menu stored and registered for disposal.
\<close>

theorem memoized_created_once:
  "let v = run K cs (new_DebugViewlet st loc reg sto)
   in actions_inv K v \<and>
      instances_created StartAction v \<le> 1 \<and>
      instances_created ConfigureAction v \<le> 1 \<and>
      instances_created ToggleReplAction v \<le> 1 \<and>
      instances_created SelectAndStartAction v \<le> 1 \<and>
      menus_created DebugToolbar v \<le> 1 \<and>
      startAction K (snd (startAction K v)) = startAction K v \<and>
      configureAction K (snd (configureAction K v)) = configureAction K v \<and>
      toggleReplAction (snd (toggleReplAction v)) = toggleReplAction v \<and>
      selectAndStartAction K (snd (selectAndStartAction K v)) = selectAndStartAction K v \<and>
      ActionObj (fst (startAction K v)) \<in> set (toDispose (snd (startAction K v))) \<and>
      ActionObj (fst (configureAction K v)) \<in> set (toDispose (snd (configureAction K v))) \<and>
      ActionObj (fst (toggleReplAction v)) \<in> set (toDispose (snd (toggleReplAction v))) \<and>
      ActionObj (fst (selectAndStartAction K v))
        \<in> set (toDispose (snd (selectAndStartAction K v))) \<and>
      (\<not> showInitialDebugActions v \<longrightarrow>
         getActions K (snd (getActions K v)) = getActions K v \<and>
         (case debugToolbarMenu (snd (getActions K v)) of
            None \<Rightarrow> False
          | Some m \<Rightarrow>
              menu_id m = DebugToolbar \<and> MenuObj m \<in> set (toDispose (snd (getActions K v)))))"
proof -
  define v where "v = run K cs (new_DebugViewlet st loc reg sto)"
  have inv: "actions_inv K v"
    unfolding v_def by (rule actions_inv_run)
  then have "menu_inv v"
    by (simp add: actions_inv_def)
  then show ?thesis
    unfolding Let_def v_def [symmetric]
    using inv actions_inv_counts [OF inv] getters_registered [OF inv]
    by (simp add: getters_twice getActions_twice getActions_menu)
qed

text \<open>The theorem at the example viewlet, docked and running, after one call.\<close>

theorem memoized_created_once_witness:
  "\<not> showInitialDebugActions (run example_imported [GetSecondaryActions] example_viewlet) \<and>
   getActions example_imported
     (snd (getActions example_imported
        (run example_imported [GetSecondaryActions] example_viewlet))) =
   getActions example_imported (run example_imported [GetSecondaryActions] example_viewlet)"
proof -
  have h: "\<not> showInitialDebugActions (run example_imported [GetSecondaryActions] example_viewlet)"
    by (simp add: run_def example_viewlet_def new_DebugViewlet_def getSecondaryActions_def
        showInitialDebugActions_def startAction_def configureAction_def toggleReplAction_def
        selectAndStartAction_def memoize_def createInstance_def register_def)
  show ?thesis
    using h memoized_created_once [of example_imported "[GetSecondaryActions]" Running
        "''docked''" "\<lambda>m. []" example_store]
    by (simp add: Let_def example_viewlet_def)
qed

text \<open>
  Claim C2. For every state of the debug service and every value of
  \<open>debug.toolBarLocation\<close>, \<open>showInitialDebugActions\<close> is true if and only if the state is
  \<open>Inactive\<close> or the value is not \<open>docked\<close>; so it is true in state \<open>Inactive\<close> whatever the
  value, and true for a value other than \<open>docked\<close> whatever the state.
\<close>

theorem showInitialDebugActions_iff:
  "showInitialDebugActions (v\<lparr>debugService_state := st, toolBarLocation := loc\<rparr>) =
     (st = Inactive \<or> loc \<noteq> ''docked'') \<and>
   showInitialDebugActions (v\<lparr>debugService_state := Inactive, toolBarLocation := loc\<rparr>) \<and>
   (loc \<noteq> ''docked'' \<longrightarrow>
      showInitialDebugActions (v\<lparr>debugService_state := st, toolBarLocation := loc\<rparr>))"
  by (simp add: showInitialDebugActions_def)

text \<open>The theorem at the example viewlet, stopped, with a floating toolbar.\<close>

theorem showInitialDebugActions_iff_witness:
  "''floating'' \<noteq> ''docked'' \<and>
   showInitialDebugActions
     (example_viewlet\<lparr>debugService_state := Stopped, toolBarLocation := ''floating''\<rparr>)"
  using showInitialDebugActions_iff [where v = example_viewlet and st = Stopped and loc = "''floating''"]
  by simp

text \<open>
  Claim C4. A state-change notification first ends the stored progress runner, if there
  is one; then, exactly when the new state is \<open>Initializing\<close>, it shows an indeterminate
  progress indicator and stores its runner; then, exactly when the toolbar location is
  \<open>docked\<close>, it refreshes the title area. It does nothing else.
\<close>

theorem onDebugServiceStateChange_effects:
  "onDebugServiceStateChange st v =
     v\<lparr>progressRunner := (if st = Initializing then Some (fresh v) else progressRunner v),
       fresh := (if st = Initializing then Suc (fresh v) else fresh v),
       trace := trace v
         @ (case progressRunner v of Some r \<Rightarrow> [ProgressDone r] | None \<Rightarrow> [])
         @ (if st = Initializing then [ProgressShow True (fresh v)] else [])
         @ (if toolBarLocation v = ''docked'' then [UpdateTitleArea] else [])\<rparr>"
  by (simp add: onDebugServiceStateChange_def progressRunner_done_def progressService_show_def
      updateTitleArea_def Let_def split: option.splits)


subsection \<open>The sizing recomputation and the events of the panels\<close>

lemma update_fields:
  "panels (updateBreakpointsMaxSize v) = panels v"
  "panelListeners (updateBreakpointsMaxSize v) = panelListeners v"
  "breakpointView (updateBreakpointsMaxSize v) = breakpointView v"
  "trace (updateBreakpointsMaxSize v) = trace v"
  "fresh (updateBreakpointsMaxSize v) = fresh v"
  by (simp_all add: updateBreakpointsMaxSize_def Let_def split: option.splits)

lemma update_store:
  "panel_id (store (updateBreakpointsMaxSize v) p) = panel_id (store v p)"
  "isExpanded (store (updateBreakpointsMaxSize v) p) = isExpanded (store v p)"
  "minimumBodySize (store (updateBreakpointsMaxSize v) p) = minimumBodySize (store v p)"
  "onDidChange (store (updateBreakpointsMaxSize v) p) = onDidChange (store v p)"
  by (simp_all add: updateBreakpointsMaxSize_def Let_def split: option.splits)

lemma update_rule:
  "updateBreakpointsMaxSize v =
     (case breakpointView v of
        None \<Rightarrow> v
      | Some b \<Rightarrow>
          v\<lparr>store := (store v)(b := (store v b)\<lparr>maximumBodySize :=
              (if list_all (\<lambda>p. p = b \<or> \<not> isExpanded (store v p)) (panels v)
               then POSITIVE_INFINITY else minimumBodySize (store v b))\<rparr>)\<rparr>)"
proof -
  have "list_all (\<lambda>view. \<not> isExpanded (store v view) \<or> view = b) (panels v) =
        list_all (\<lambda>p. p = b \<or> \<not> isExpanded (store v p)) (panels v)" for b
    by (auto simp add: list_all_iff)
  then show ?thesis
    by (simp add: updateBreakpointsMaxSize_def Let_def split: option.splits)
qed

lemma update_idem:
  "updateBreakpointsMaxSize (updateBreakpointsMaxSize v) = updateBreakpointsMaxSize v"
proof (cases "breakpointView v")
  case None
  then show ?thesis by (simp add: updateBreakpointsMaxSize_def)
next
  case (Some b)
  have "list_all (\<lambda>p. p = b \<or> \<not> isExpanded (store (updateBreakpointsMaxSize v) p)) (panels v) =
        list_all (\<lambda>p. p = b \<or> \<not> isExpanded (store v p)) (panels v)"
    by (simp add: update_store)
  with Some show ?thesis
    apply (subst (1) update_rule)
    apply (simp add: update_fields update_store)
    apply (simp add: update_rule)
    done
qed

lemma fold_idem: "f (f v) = f v \<Longrightarrow> xs \<noteq> [] \<Longrightarrow> fold (\<lambda>t. f) xs v = f v"
proof (induction xs arbitrary: v)
  case Nil
  then show ?case by simp
next
  case (Cons x xs)
  show ?case
  proof (cases xs)
    case Nil
    then show ?thesis by simp
  next
    case (Cons y ys)
    then have "fold (\<lambda>t. f) xs (f v) = f (f v)"
      using Cons.IH [of "f v"] Cons.prems(1) by simp
    with Cons.prems show ?thesis by simp
  qed
qed

lemma fire_subscribed:
  "onDidChange (store v q) \<noteq> [] \<Longrightarrow> fire_onDidChange q v = updateBreakpointsMaxSize v"
  unfolding fire_onDidChange_def by (rule fold_idem) (rule update_idem)

lemma fire_unsubscribed:
  "onDidChange (store v q) = [] \<Longrightarrow> fire_onDidChange q v = v"
  by (simp add: fire_onDidChange_def)

subsection \<open>The panel-listener map\<close>

lemma same_panels_refl: "same_panels v v"
  by (simp add: same_panels_def)

lemma same_panels_trans: "same_panels u v \<Longrightarrow> same_panels v w \<Longrightarrow> same_panels u w"
  by (simp add: same_panels_def)

lemma same_panels_ids: "same_panels v w \<Longrightarrow> ids_of w L = ids_of v L"
  by (simp add: same_panels_def ids_of_def)

lemma same_panels_subscribed: "same_panels v w \<Longrightarrow> subscribed w = subscribed v"
  by (rule ext) (simp add: same_panels_def subscribed_def)

lemma same_panels_listening: "same_panels v w \<Longrightarrow> listening w L = listening v L"
  by (simp add: listening_def same_panels_ids same_panels_subscribed)
     (simp add: same_panels_def)

lemma same_panels_siblings:
  "same_panels v w \<Longrightarrow> panels w = panels v \<Longrightarrow> siblings K w = siblings K v"
  by (simp add: same_panels_def siblings_def)

lemma same_panels_update: "same_panels v (updateBreakpointsMaxSize v)"
  by (simp add: same_panels_def update_fields update_store)

lemma same_panels_fold:
  "(\<And>x w. same_panels w (f x w)) \<Longrightarrow> same_panels v (fold f xs v)"
proof (induction xs arbitrary: v)
  case Nil
  show ?case by (simp add: same_panels_refl)
next
  case (Cons x xs)
  have "same_panels v (f x v)" by (rule Cons.prems)
  moreover have "same_panels (f x v) (fold f xs (f x v))" by (rule Cons.IH) (rule Cons.prems)
  ultimately show ?case by (simp add: same_panels_trans [of v "f x v"])
qed

lemma same_panels_fire: "same_panels v (fire_onDidChange p v)"
proof -
  have "same_panels w (fold (\<lambda>t. updateBreakpointsMaxSize) ts w)" for ts :: "nat list" and w
    by (rule same_panels_fold) (rule same_panels_update)
  then show ?thesis
    unfolding fire_onDidChange_def .
qed

lemma fire_panels: "panels (fire_onDidChange p v) = panels v"
proof -
  have "panels (fold (\<lambda>t. updateBreakpointsMaxSize) ts w) = panels w" for ts :: "nat list" and w
    by (induction ts arbitrary: w) (simp_all add: update_fields)
  then show ?thesis
    unfolding fire_onDidChange_def .
qed

lemma same_panels_setExpanded: "same_panels v (setExpanded p b v)"
proof -
  have "same_panels v (v\<lparr>store := (store v)(p := (store v p)\<lparr>isExpanded := b\<rparr>)\<rparr>)"
    by (simp add: same_panels_def)
  then show ?thesis
    unfolding setExpanded_def by (rule same_panels_trans) (rule same_panels_fire)
qed

lemma setExpanded_panels: "panels (setExpanded p b v) = panels v"
  by (simp add: setExpanded_def fire_panels)

text \<open>Attaching: the loop of \<open>addPanels\<close> extends the listening panels by the new siblings.\<close>

lemma addPanels_body_panels: "panels (addPanels_body K e v) = panels v"
  by (simp add: addPanels_body_def update_fields onDidChange_subscribe_def)

lemma addPanels_body_id:
  "panel_id (store (addPanels_body K e v) p) = panel_id (store v p)"
  by (simp add: addPanels_body_def update_store onDidChange_subscribe_def)

lemma addPanels_body_ids: "ids_of (addPanels_body K e v) L = ids_of v L"
  by (simp add: ids_of_def addPanels_body_id)

lemma addPanels_body_breakpoints:
  assumes "panel_id (store v (panel e)) = BREAKPOINTS_VIEW_ID K"
  shows "same_panels v (addPanels_body K e v)"
proof -
  have "same_panels v (v\<lparr>breakpointView := Some (panel e)\<rparr>)"
    by (simp add: same_panels_def)
  with assms show ?thesis
    by (simp add: addPanels_body_def same_panels_trans [OF _ same_panels_update])
qed

lemma addPanels_body_sibling_state:
  assumes "panel_id (store v (panel e)) \<noteq> BREAKPOINTS_VIEW_ID K"
  shows "addPanels_body K e v =
     v\<lparr>store := (store v)(panel e := (store v (panel e))\<lparr>onDidChange :=
          onDidChange (store v (panel e)) @ [fresh v]\<rparr>),
       fresh := Suc (fresh v),
       panelListeners := (panelListeners v)(panel_id (store v (panel e)) \<mapsto>
          Listener (panel e) (fresh v))\<rparr>"
  using assms by (simp add: addPanels_body_def onDidChange_subscribe_def)

lemma addPanels_body_sibling:
  assumes bp: "panel_id (store v (panel e)) \<noteq> BREAKPOINTS_VIEW_ID K"
    and L: "listening v L" and new: "panel_id (store v (panel e)) \<notin> set (ids_of v L)"
  shows "listening (addPanels_body K e v) (L @ [panel e])"
proof -
  let ?w = "addPanels_body K e v"
  have ids: "ids_of ?w M = ids_of v M" for M
    by (rule addPanels_body_ids)
  have "distinct (ids_of v (L @ [panel e]))"
    using L new by (simp add: listening_def ids_of_def)
  moreover have "dom (panelListeners ?w) = set (ids_of v (L @ [panel e]))"
    using L by (simp add: addPanels_body_sibling_state [OF bp] listening_def ids_of_def)
  moreover have "subscribed ?w (panel e)"
    by (simp add: addPanels_body_sibling_state [OF bp] subscribed_def)
  moreover have "subscribed ?w q" if "q \<in> set L" for q
  proof -
    from that have "panel_id (store v q) \<in> set (ids_of v L)"
      by (simp add: ids_of_def)
    with new have "panel_id (store v q) \<noteq> panel_id (store v (panel e))"
      by metis
    moreover from this have "q \<noteq> panel e" by auto
    moreover from that L have "subscribed v q"
      by (simp add: listening_def list_all_iff)
    ultimately show ?thesis
      by (simp add: addPanels_body_sibling_state [OF bp] subscribed_def list_ex_iff)
  qed
  ultimately show ?thesis
    by (simp add: listening_def ids list_all_iff)
qed

lemma addPanels_fold_panels: "panels (fold (addPanels_body K) es v) = panels v"
  by (induction es arbitrary: v) (simp_all add: addPanels_body_panels)

lemma addPanels_fold_id:
  "panel_id (store (fold (addPanels_body K) es v) p) = panel_id (store v p)"
  by (induction es arbitrary: v) (simp_all add: addPanels_body_id)

lemma addPanels_fold_listening:
  assumes "listening v L"
    and "distinct (ids_of v
      (filter (\<lambda>p. panel_id (store v p) \<noteq> BREAKPOINTS_VIEW_ID K) (map panel es)))"
    and "set (ids_of v
      (filter (\<lambda>p. panel_id (store v p) \<noteq> BREAKPOINTS_VIEW_ID K) (map panel es))) \<inter>
      set (ids_of v L) = {}"
  shows "listening (fold (addPanels_body K) es v)
           (L @ filter (\<lambda>p. panel_id (store v p) \<noteq> BREAKPOINTS_VIEW_ID K) (map panel es))"
  using assms
proof (induction es arbitrary: v L)
  case Nil
  then show ?case by simp
next
  case (Cons e es)
  let ?w = "addPanels_body K e v"
  let ?N = "filter (\<lambda>p. panel_id (store v p) \<noteq> BREAKPOINTS_VIEW_ID K) (map panel es)"
  have ids: "ids_of ?w M = ids_of v M" for M
    by (rule addPanels_body_ids)
  have rest: "filter (\<lambda>p. panel_id (store ?w p) \<noteq> BREAKPOINTS_VIEW_ID K) (map panel es) = ?N"
    by (simp add: addPanels_body_id)
  show ?case
  proof (cases "panel_id (store v (panel e)) = BREAKPOINTS_VIEW_ID K")
    case True
    then have a: "listening ?w L"
      using Cons.prems(1) same_panels_listening [OF addPanels_body_breakpoints] by simp
    from True Cons.prems(2) have "distinct (ids_of v ?N)"
      by simp
    then have d: "distinct (ids_of ?w
        (filter (\<lambda>p. panel_id (store ?w p) \<noteq> BREAKPOINTS_VIEW_ID K) (map panel es)))"
      by (simp only: rest ids)
    from True Cons.prems(3) have "set (ids_of v ?N) \<inter> set (ids_of v L) = {}"
      by simp
    then have b: "set (ids_of ?w
        (filter (\<lambda>p. panel_id (store ?w p) \<noteq> BREAKPOINTS_VIEW_ID K) (map panel es))) \<inter>
        set (ids_of ?w L) = {}"
      by (simp only: rest ids)
    have "listening (fold (addPanels_body K) es ?w)
        (L @ filter (\<lambda>p. panel_id (store ?w p) \<noteq> BREAKPOINTS_VIEW_ID K) (map panel es))"
      using a d b by (rule Cons.IH)
    with True show ?thesis by (simp add: rest)
  next
    case False
    from False Cons.prems(2)
    have new: "panel_id (store v (panel e)) \<notin> set (ids_of v ?N)" "distinct (ids_of v ?N)"
      by (simp_all add: ids_of_def)
    from False Cons.prems(3)
    have old: "panel_id (store v (panel e)) \<notin> set (ids_of v L)"
      "set (ids_of v ?N) \<inter> set (ids_of v L) = {}"
      by (simp_all add: ids_of_def)
    from False Cons.prems(1) old(1) have a: "listening ?w (L @ [panel e])"
      by (rule addPanels_body_sibling)
    from new(2) have d: "distinct (ids_of ?w
        (filter (\<lambda>p. panel_id (store ?w p) \<noteq> BREAKPOINTS_VIEW_ID K) (map panel es)))"
      by (simp only: rest ids)
    from new(1) old(2) have "set (ids_of v ?N) \<inter> set (ids_of v (L @ [panel e])) = {}"
      by (auto simp add: ids_of_def)
    then have b: "set (ids_of ?w
        (filter (\<lambda>p. panel_id (store ?w p) \<noteq> BREAKPOINTS_VIEW_ID K) (map panel es))) \<inter>
        set (ids_of ?w (L @ [panel e])) = {}"
      by (simp only: rest ids)
    have "listening (fold (addPanels_body K) es ?w)
        ((L @ [panel e]) @
          filter (\<lambda>p. panel_id (store ?w p) \<noteq> BREAKPOINTS_VIEW_ID K) (map panel es))"
      using a d b by (rule Cons.IH)
    with False show ?thesis by (simp add: rest)
  qed
qed

text \<open>Detaching: the loop of \<open>removePanels\<close> drops the panels with the ids removed.\<close>

lemma dispose_fields:
  "panelListeners (dispose d v) = panelListeners v"
  "panels (dispose d v) = panels v"
  "breakpointView (dispose d v) = breakpointView v"
  "panel_id (store (dispose d v) p) = panel_id (store v p)"
  "isExpanded (store (dispose d v) p) = isExpanded (store v p)"
  "minimumBodySize (store (dispose d v) p) = minimumBodySize (store v p)"
  "maximumBodySize (store (dispose d v) p) = maximumBodySize (store v p)"
  by (cases "(d, v)" rule: dispose.cases; simp)+

lemma removePanels_body_fields:
  "panels (removePanels_body p v) = panels v"
  "breakpointView (removePanels_body p v) = breakpointView v"
  "panel_id (store (removePanels_body p v) q) = panel_id (store v q)"
  "isExpanded (store (removePanels_body p v) q) = isExpanded (store v q)"
  "minimumBodySize (store (removePanels_body p v) q) = minimumBodySize (store v q)"
  "maximumBodySize (store (removePanels_body p v) q) = maximumBodySize (store v q)"
  by (simp_all add: removePanels_body_def Let_def dispose_fields)

lemma removePanels_body_ids: "ids_of (removePanels_body p v) L = ids_of v L"
  by (simp add: ids_of_def removePanels_body_fields)

lemma removePanels_body_absent:
  assumes "panelListeners v (panel_id (store v p)) = None"
  shows "removePanels_body p v = v"
proof -
  from assms have "(panelListeners v)(panel_id (store v p) := None) = panelListeners v"
    by (simp add: fun_upd_idem)
  with assms show ?thesis
    by (simp add: removePanels_body_def)
qed

lemma removePanels_body_present:
  "panelListeners v (panel_id (store v p)) = Some (Listener q t) \<Longrightarrow>
   removePanels_body p v =
     v\<lparr>store := (store v)(q := (store v q)\<lparr>onDidChange := removeAll t (onDidChange (store v q))\<rparr>),
       trace := trace v @ [Disposed (Listener q t)],
       panelListeners := (panelListeners v)(panel_id (store v p) := None)\<rparr>"
  by (simp add: removePanels_body_def)

lemma removePanels_body_listening:
  assumes L: "listening v L"
  shows "listening (removePanels_body p v)
           (filter (\<lambda>q. panel_id (store v q) \<noteq> panel_id (store v p)) L)"
proof (cases "panelListeners v (panel_id (store v p))")
  case None
  then have absent: "panel_id (store v p) \<notin> set (ids_of v L)"
    using L by (auto simp add: listening_def)
  have "panel_id (store v q) \<noteq> panel_id (store v p)" if "q \<in> set L" for q
  proof -
    from that have "panel_id (store v q) \<in> set (ids_of v L)"
      by (simp add: ids_of_def)
    with absent show ?thesis by metis
  qed
  then have "filter (\<lambda>q. panel_id (store v q) \<noteq> panel_id (store v p)) L = L"
    by (simp add: filter_id_conv)
  with None L show ?thesis
    by (simp add: removePanels_body_absent)
next
  case (Some d)
  let ?w = "removePanels_body p v"
  let ?M = "filter (\<lambda>q. panel_id (store v q) \<noteq> panel_id (store v p)) L"
  from Some L have "panel_id (store v p) \<in> set (ids_of v L)"
    by (auto simp add: listening_def)
  then obtain r where r: "r \<in> set L" "panel_id (store v r) = panel_id (store v p)"
    by (auto simp add: ids_of_def)
  with L have "subscribed v r"
    by (simp add: listening_def list_all_iff)
  with r Some obtain t where d: "d = Listener r t"
    by (auto simp add: subscribed_def list_ex_iff)
  note state = removePanels_body_present [OF Some [unfolded d]]
  have "distinct (ids_of v ?M)"
    using L by (simp add: listening_def ids_of_def distinct_map_filter)
  moreover have "dom (panelListeners ?w) = set (ids_of v ?M)"
    using L by (auto simp add: state listening_def ids_of_def)
  moreover have "subscribed ?w q" if "q \<in> set ?M" for q
  proof -
    from that have "q \<in> set L" and ne: "panel_id (store v q) \<noteq> panel_id (store v p)"
      by simp_all
    with L have "subscribed v q"
      by (simp add: listening_def list_all_iff)
    moreover from ne r have "q \<noteq> r" by auto
    ultimately show ?thesis
      using ne by (simp add: state subscribed_def list_ex_iff)
  qed
  ultimately show ?thesis
    by (simp add: listening_def removePanels_body_ids list_all_iff)
qed

lemma removePanels_fold_fields:
  "panels (fold removePanels_body ps v) = panels v"
  "breakpointView (fold removePanels_body ps v) = breakpointView v"
  "panel_id (store (fold removePanels_body ps v) q) = panel_id (store v q)"
  "isExpanded (store (fold removePanels_body ps v) q) = isExpanded (store v q)"
  "minimumBodySize (store (fold removePanels_body ps v) q) = minimumBodySize (store v q)"
  "maximumBodySize (store (fold removePanels_body ps v) q) = maximumBodySize (store v q)"
  by (induction ps arbitrary: v; simp add: removePanels_body_fields)+

lemma removePanels_fold_listening:
  assumes "listening v L"
  shows "listening (fold removePanels_body ps v)
           (filter (\<lambda>q. panel_id (store v q) \<notin> set (ids_of v ps)) L)"
  using assms
proof (induction ps arbitrary: v L)
  case Nil
  then show ?case by (simp add: ids_of_def)
next
  case (Cons p ps)
  let ?w = "removePanels_body p v"
  have "listening ?w (filter (\<lambda>q. panel_id (store v q) \<noteq> panel_id (store v p)) L)"
    using Cons.prems by (rule removePanels_body_listening)
  then have "listening (fold removePanels_body ps ?w)
      (filter (\<lambda>q. panel_id (store ?w q) \<notin> set (ids_of ?w ps))
        (filter (\<lambda>q. panel_id (store v q) \<noteq> panel_id (store v p)) L))"
    by (rule Cons.IH)
  moreover have "filter (\<lambda>q. panel_id (store ?w q) \<notin> set (ids_of ?w ps))
        (filter (\<lambda>q. panel_id (store v q) \<noteq> panel_id (store v p)) L) =
      filter (\<lambda>q. panel_id (store v q) \<notin> set (ids_of v (p # ps))) L"
    by (auto simp add: removePanels_body_ids removePanels_body_fields ids_of_def
        intro: filter_cong)
  ultimately show ?case by simp
qed

lemma fold_remove1_distinct:
  "distinct P \<Longrightarrow> fold remove1 ps P = filter (\<lambda>q. q \<notin> set ps) P"
proof (induction ps arbitrary: P)
  case Nil
  then show ?case by simp
next
  case (Cons p ps)
  have "remove1 p P = filter (\<lambda>q. q \<noteq> p) P"
    using Cons.prems by (simp add: distinct_remove1_removeAll removeAll_filter_not_eq) metis
  moreover have "distinct (remove1 p P)"
    using Cons.prems by simp
  ultimately show ?case
    using Cons.IH [of "remove1 p P"] by (auto intro: filter_cong)
qed

lemma filter_fold_remove1: "filter Q (fold remove1 ps P) = fold remove1 ps (filter Q P)"
  by (induction ps arbitrary: P) (simp_all add: filter_remove1)

text \<open>The invariant is kept by every call that respects the contract.\<close>

lemma panelListeners_inv_listening: "panelListeners_inv K v = listening v (siblings K v)"
  by (simp add: panelListeners_inv_def listening_def)

lemma panelListeners_inv_same:
  assumes "same_panels v w" and "panels w = panels v"
  shows "panelListeners_inv K w = panelListeners_inv K v"
  using assms
  by (simp add: panelListeners_inv_listening same_panels_listening same_panels_siblings)

lemma panelListeners_inv_addPanels:
  assumes inv: "panelListeners_inv K v" and ok: "call_ok K (AddPanels es) v"
  shows "panelListeners_inv K (addPanels K es v)"
proof -
  let ?u = "super_addPanels es v"
  let ?w = "fold (addPanels_body K) es ?u"
  let ?N = "filter (\<lambda>p. panel_id (store v p) \<noteq> BREAKPOINTS_VIEW_ID K) (map panel es)"
  have u: "same_panels v ?u"
    by (simp add: same_panels_def super_addPanels_def)
  have store_u: "store ?u = store v"
    by (simp add: super_addPanels_def)
  have ids_u: "ids_of ?u M = ids_of v M" for M
    using u by (rule same_panels_ids)
  have panels_w: "panels ?w = panels v @ map panel es"
    by (simp add: addPanels_fold_panels super_addPanels_def)
  have new: "distinct (ids_of v ?N)"
    and fresh: "set (ids_of v ?N) \<inter> set (ids_of v (siblings K v)) = {}"
    using ok by (auto simp add: list_all_iff)
  have L: "listening v (siblings K v)"
    using inv by (simp add: panelListeners_inv_listening)
  have "listening ?u (siblings K v)"
    using L same_panels_listening [OF u] by simp
  moreover have "distinct (ids_of ?u
      (filter (\<lambda>p. panel_id (store ?u p) \<noteq> BREAKPOINTS_VIEW_ID K) (map panel es)))"
    using new by (simp only: ids_u store_u)
  moreover have "set (ids_of ?u
      (filter (\<lambda>p. panel_id (store ?u p) \<noteq> BREAKPOINTS_VIEW_ID K) (map panel es))) \<inter>
      set (ids_of ?u (siblings K v)) = {}"
    using fresh by (simp only: ids_u store_u)
  ultimately have "listening ?w
      (siblings K v @
       filter (\<lambda>p. panel_id (store ?u p) \<noteq> BREAKPOINTS_VIEW_ID K) (map panel es))"
    by (rule addPanels_fold_listening)
  moreover have "siblings K ?w =
      siblings K v @ filter (\<lambda>p. panel_id (store ?u p) \<noteq> BREAKPOINTS_VIEW_ID K) (map panel es)"
    by (simp add: siblings_def panels_w addPanels_fold_id) (simp add: super_addPanels_def)
  ultimately show ?thesis
    by (simp add: panelListeners_inv_listening addPanels_def)
qed

lemma panelListeners_inv_removePanels:
  assumes inv: "panelListeners_inv K v" and ok: "call_ok K (RemovePanels ps) v"
  shows "panelListeners_inv K (removePanels ps v)"
proof -
  let ?u = "super_removePanels ps v"
  let ?w = "fold removePanels_body ps ?u"
  let ?S = "siblings K v"
  have u: "same_panels v ?u"
    by (simp add: same_panels_def super_removePanels_def)
  have store_u: "store ?u = store v"
    by (simp add: super_removePanels_def)
  have ids_u: "ids_of ?u M = ids_of v M" for M
    using u by (rule same_panels_ids)
  have L: "listening v ?S"
    using inv by (simp add: panelListeners_inv_listening)
  then have dist_ids: "distinct (ids_of v ?S)"
    by (simp add: listening_def)
  then have inj: "inj_on (\<lambda>p. panel_id (store v p)) (set ?S)" and dist: "distinct ?S"
    by (simp_all add: ids_of_def distinct_map)
  have attached: "p \<in> set (panels v) \<or> panel_id (store v p) \<notin> set (ids_of v ?S)"
    if "p \<in> set ps" for p
    using ok that by (auto simp add: list_all_iff)
  have "siblings K ?w = filter (\<lambda>p. panel_id (store v p) \<noteq> BREAKPOINTS_VIEW_ID K)
      (fold remove1 ps (panels v))"
    by (simp add: siblings_def removePanels_fold_fields) (simp add: super_removePanels_def)
  also have "\<dots> = fold remove1 ps ?S"
    by (simp add: filter_fold_remove1 siblings_def)
  also have "\<dots> = filter (\<lambda>q. q \<notin> set ps) ?S"
    using dist by (rule fold_remove1_distinct)
  also have "\<dots> = filter (\<lambda>q. panel_id (store v q) \<notin> set (ids_of v ps)) ?S"
  proof (rule filter_cong [OF refl])
    fix q
    assume q: "q \<in> set ?S"
    show "(q \<notin> set ps) = (panel_id (store v q) \<notin> set (ids_of v ps))"
    proof
      assume "q \<notin> set ps"
      show "panel_id (store v q) \<notin> set (ids_of v ps)"
      proof
        assume "panel_id (store v q) \<in> set (ids_of v ps)"
        then obtain p where p: "p \<in> set ps" "panel_id (store v p) = panel_id (store v q)"
          by (auto simp add: ids_of_def)
        from q have "panel_id (store v q) \<in> set (ids_of v ?S)"
          by (simp add: ids_of_def)
        with attached [OF p(1)] p(2) have "p \<in> set (panels v)"
          by simp
        moreover from q p(2) have "panel_id (store v p) \<noteq> BREAKPOINTS_VIEW_ID K"
          by (simp add: siblings_def)
        ultimately have "p \<in> set ?S"
          by (simp add: siblings_def)
        with inj p(2) q have "p = q"
          by (auto dest: inj_onD)
        with p(1) \<open>q \<notin> set ps\<close> show False by simp
      qed
    next
      assume "panel_id (store v q) \<notin> set (ids_of v ps)"
      then show "q \<notin> set ps"
        by (auto simp add: ids_of_def)
    qed
  qed
  finally have sib: "siblings K ?w =
      filter (\<lambda>q. panel_id (store ?u q) \<notin> set (ids_of ?u ps)) ?S"
    by (simp only: ids_u store_u)
  have "listening ?u ?S"
    using L same_panels_listening [OF u] by simp
  then have "listening ?w (filter (\<lambda>q. panel_id (store ?u q) \<notin> set (ids_of ?u ps)) ?S)"
    by (rule removePanels_fold_listening)
  with sib show ?thesis
    by (simp add: panelListeners_inv_listening removePanels_def)
qed

lemma getter_attached:
  "store (snd (memoize key (\<lambda>v. case createInstance c i l v of (a, v1) \<Rightarrow> (a, register (ActionObj a) v1)) v)) = store v"
  "panelListeners (snd (memoize key (\<lambda>v. case createInstance c i l v of (a, v1) \<Rightarrow> (a, register (ActionObj a) v1)) v)) = panelListeners v"
  "panels (snd (memoize key (\<lambda>v. case createInstance c i l v of (a, v1) \<Rightarrow> (a, register (ActionObj a) v1)) v)) = panels v"
  "breakpointView (snd (memoize key (\<lambda>v. case createInstance c i l v of (a, v1) \<Rightarrow> (a, register (ActionObj a) v1)) v)) = breakpointView v"
  by (cases "memoized v key"; simp add: getter_unfold)+

lemma getters_attached:
  "store (snd (startAction K v)) = store v"
  "panelListeners (snd (startAction K v)) = panelListeners v"
  "panels (snd (startAction K v)) = panels v"
  "breakpointView (snd (startAction K v)) = breakpointView v"
  "store (snd (configureAction K v)) = store v"
  "panelListeners (snd (configureAction K v)) = panelListeners v"
  "panels (snd (configureAction K v)) = panels v"
  "breakpointView (snd (configureAction K v)) = breakpointView v"
  "store (snd (toggleReplAction v)) = store v"
  "panelListeners (snd (toggleReplAction v)) = panelListeners v"
  "panels (snd (toggleReplAction v)) = panels v"
  "breakpointView (snd (toggleReplAction v)) = breakpointView v"
  "store (snd (selectAndStartAction K v)) = store v"
  "panelListeners (snd (selectAndStartAction K v)) = panelListeners v"
  "panels (snd (selectAndStartAction K v)) = panels v"
  "breakpointView (snd (selectAndStartAction K v)) = breakpointView v"
  unfolding startAction_def configureAction_def toggleReplAction_def selectAndStartAction_def
  by (simp_all add: getter_attached)

lemma getActions_attached:
  "store (snd (getActions K v)) = store v"
  "panelListeners (snd (getActions K v)) = panelListeners v"
  "panels (snd (getActions K v)) = panels v"
  "breakpointView (snd (getActions K v)) = breakpointView v"
proof -
  have "store (snd (getActions K v)) = store v \<and>
      panelListeners (snd (getActions K v)) = panelListeners v \<and>
      panels (snd (getActions K v)) = panels v \<and>
      breakpointView (snd (getActions K v)) = breakpointView v"
  proof (cases "showInitialDebugActions v")
    case True
    then have "snd (getActions K v) =
        snd (toggleReplAction (snd (configureAction K (snd (startAction K v)))))"
      by (simp add: getActions_def case_prod_beta)
    then show ?thesis
      by (simp add: getters_attached)
  next
    case False
    then show ?thesis
      by (cases "debugToolbarMenu v") (simp_all add: getActions_docked)
  qed
  then show "store (snd (getActions K v)) = store v"
    and "panelListeners (snd (getActions K v)) = panelListeners v"
    and "panels (snd (getActions K v)) = panels v"
    and "breakpointView (snd (getActions K v)) = breakpointView v"
    by simp_all
qed

lemma getSecondaryActions_attached:
  "store (snd (getSecondaryActions K v)) = store v"
  "panelListeners (snd (getSecondaryActions K v)) = panelListeners v"
  "panels (snd (getSecondaryActions K v)) = panels v"
  "breakpointView (snd (getSecondaryActions K v)) = breakpointView v"
proof -
  have "snd (getSecondaryActions K v) =
      (if showInitialDebugActions v then v
       else snd (toggleReplAction (snd (configureAction K (snd (selectAndStartAction K v))))))"
    by (simp add: getSecondaryActions_def case_prod_beta)
  then show "store (snd (getSecondaryActions K v)) = store v"
    and "panelListeners (snd (getSecondaryActions K v)) = panelListeners v"
    and "panels (snd (getSecondaryActions K v)) = panels v"
    and "breakpointView (snd (getSecondaryActions K v)) = breakpointView v"
    by (simp_all add: getters_attached)
qed

lemma getActionItem_attached:
  "store (snd (getActionItem K a v)) = store v"
  "panelListeners (snd (getActionItem K a v)) = panelListeners v"
  "panels (snd (getActionItem K a v)) = panels v"
  "breakpointView (snd (getActionItem K a v)) = breakpointView v"
  by (simp_all add: getActionItem_def Let_def)

lemma focus_attached:
  "store (focus v) = store v"
  "panelListeners (focus v) = panelListeners v"
  "panels (focus v) = panels v"
  "breakpointView (focus v) = breakpointView v"
  by (simp_all add: focus_def Let_def split: option.splits)

lemma stateChange_attached:
  "store (onDebugServiceStateChange st v) = store v"
  "panelListeners (onDebugServiceStateChange st v) = panelListeners v"
  "panels (onDebugServiceStateChange st v) = panels v"
  "breakpointView (onDebugServiceStateChange st v) = breakpointView v"
  by (simp_all add: onDebugServiceStateChange_def progressRunner_done_def
      progressService_show_def updateTitleArea_def Let_def split: option.splits)

lemma panelListeners_inv_frame:
  assumes "store w = store v" and "panelListeners w = panelListeners v"
    and "panels w = panels v"
  shows "panelListeners_inv K w = panelListeners_inv K v"
  using assms by (intro panelListeners_inv_same) (simp_all add: same_panels_def)

lemma panelListeners_inv_exec:
  assumes "panelListeners_inv K v" and "call_ok K c v"
  shows "panelListeners_inv K (exec K c v)"
proof (cases c)
  case (AddPanels es)
  with assms show ?thesis by (simp add: panelListeners_inv_addPanels)
next
  case (RemovePanels ps)
  with assms show ?thesis by (simp add: panelListeners_inv_removePanels)
next
  case (SetExpanded p b)
  with assms(1) show ?thesis
    by (simp add: panelListeners_inv_same [OF same_panels_setExpanded setExpanded_panels])
next
  case (FireDidChange p)
  with assms(1) show ?thesis
    by (simp add: panelListeners_inv_same [OF same_panels_fire fire_panels])
next
  case GetActions
  with assms(1) show ?thesis
    by (simp add: panelListeners_inv_frame [OF getActions_attached(1,2,3)])
next
  case GetSecondaryActions
  with assms(1) show ?thesis
    by (simp add: panelListeners_inv_frame [OF getSecondaryActions_attached(1,2,3)])
next
  case (GetActionItem a)
  with assms(1) show ?thesis
    by (simp add: panelListeners_inv_frame [OF getActionItem_attached(1,2,3)])
next
  case Focus
  with assms(1) show ?thesis
    by (simp add: panelListeners_inv_frame [OF focus_attached(1,2,3)])
next
  case (DidChangeState st)
  have "panelListeners_inv K (onDebugServiceStateChange st (v\<lparr>debugService_state := st\<rparr>)) =
      panelListeners_inv K v"
    by (rule panelListeners_inv_frame) (simp_all add: stateChange_attached)
  with DidChangeState assms(1) show ?thesis by simp
next
  case (DidChangeConfiguration loc)
  have "panelListeners_inv K (updateTitleArea (v\<lparr>toolBarLocation := loc\<rparr>)) =
      panelListeners_inv K v"
    by (rule panelListeners_inv_frame) (simp_all add: updateTitleArea_def)
  with DidChangeConfiguration assms(1) show ?thesis by simp
next
  case DidChangeWorkbenchState
  have "panelListeners_inv K (updateTitleArea v) = panelListeners_inv K v"
    by (rule panelListeners_inv_frame) (simp_all add: updateTitleArea_def)
  with DidChangeWorkbenchState assms(1) show ?thesis by simp
qed

lemma panelListeners_inv_fold:
  "panelListeners_inv K v \<Longrightarrow> calls_ok K cs v \<Longrightarrow> panelListeners_inv K (fold (exec K) cs v)"
  by (induction cs arbitrary: v) (simp_all add: panelListeners_inv_exec)

lemma panelListeners_inv_new: "panelListeners_inv K (new_DebugViewlet st loc reg sto)"
  by (simp add: panelListeners_inv_def new_DebugViewlet_def siblings_def ids_of_def)

text \<open>The definitions that evaluate the example.\<close>

lemmas eval_defs =
  run_def example_viewlet_def new_DebugViewlet_def example_store_def example_panel_def
  example_imported_def example_arg_def
  addPanels_def addPanels_body_def super_addPanels_def onDidChange_subscribe_def
  removePanels_def removePanels_body_def super_removePanels_def
  updateBreakpointsMaxSize_def fire_onDidChange_def setExpanded_def Let_def
  ids_of_def siblings_def subscribed_def

subsection \<open>Removing panels twice\<close>

lemma removePanels_body_map:
  "panelListeners (removePanels_body p v) = (panelListeners v)(panel_id (store v p) := None)"
  by (simp add: removePanels_body_def Let_def dispose_fields)

lemma removePanels_fold_map:
  "panelListeners (fold removePanels_body ps v) =
     (\<lambda>k. if k \<in> set (ids_of v ps) then None else panelListeners v k)"
proof (induction ps arbitrary: v)
  case Nil
  show ?case by (simp add: ids_of_def)
next
  case (Cons p ps)
  have "ids_of (removePanels_body p v) ps = ids_of v ps"
    by (rule removePanels_body_ids)
  then show ?case
    by (auto simp add: Cons.IH removePanels_body_map ids_of_def)
qed

lemma removePanels_fold_absent:
  "list_all (\<lambda>p. panelListeners v (panel_id (store v p)) = None) ps \<Longrightarrow>
   fold removePanels_body ps v = v"
  by (induction ps) (simp_all add: removePanels_body_absent)

lemma removePanels_absent:
  assumes "list_all (\<lambda>p. panelListeners v (panel_id (store v p)) = None) ps"
  shows "removePanels ps v = super_removePanels ps v"
proof -
  have "list_all (\<lambda>p. panelListeners (super_removePanels ps v)
      (panel_id (store (super_removePanels ps v) p)) = None) ps"
    using assms by (simp add: super_removePanels_def)
  then show ?thesis
    unfolding removePanels_def by (rule removePanels_fold_absent)
qed

lemma removePanels_cleared:
  "list_all (\<lambda>p. panelListeners (removePanels ps v)
      (panel_id (store (removePanels ps v) p)) = None) ps"
  by (simp add: removePanels_def removePanels_fold_map removePanels_fold_fields list_all_iff
      ids_of_def)

subsection \<open>When the breakpoints panel is sized\<close>

lemma update_assigns:
  "breakpointView v = Some b \<Longrightarrow>
   updateBreakpointsMaxSize v =
     v\<lparr>store := (store v)(b := (store v b)\<lparr>maximumBodySize := breakpoints_maximum v b\<rparr>)\<rparr>"
  by (simp add: update_rule breakpoints_maximum_def)

lemma update_none: "breakpointView v = None \<Longrightarrow> updateBreakpointsMaxSize v = v"
  by (simp add: updateBreakpointsMaxSize_def)

lemma breakpoints_maximum_frame:
  assumes "panels w = panels v"
    and "\<And>p. isExpanded (store w p) = isExpanded (store v p)"
    and "\<And>p. minimumBodySize (store w p) = minimumBodySize (store v p)"
  shows "breakpoints_maximum w b = breakpoints_maximum v b"
  using assms by (simp add: breakpoints_maximum_def)

lemma sized_update: "sized (updateBreakpointsMaxSize v)"
proof (cases "breakpointView v")
  case None
  then show ?thesis by (simp add: update_none sized_def)
next
  case (Some b)
  have "breakpoints_maximum (updateBreakpointsMaxSize v) b = breakpoints_maximum v b"
    by (rule breakpoints_maximum_frame) (simp_all add: update_fields update_store)
  moreover have "maximumBodySize (store (updateBreakpointsMaxSize v) b) = breakpoints_maximum v b"
    using Some by (simp add: update_assigns)
  ultimately show ?thesis
    using Some by (simp add: sized_def update_fields)
qed

lemma sized_frame:
  assumes "breakpointView w = breakpointView v" and "panels w = panels v"
    and "\<And>p. isExpanded (store w p) = isExpanded (store v p)"
    and "\<And>p. minimumBodySize (store w p) = minimumBodySize (store v p)"
    and "\<And>p. maximumBodySize (store w p) = maximumBodySize (store v p)"
  shows "sized w = sized v"
proof (cases "breakpointView v")
  case None
  with assms(1) show ?thesis by (simp add: sized_def)
next
  case (Some b)
  have "breakpoints_maximum w b = breakpoints_maximum v b"
    using assms(2,3,4) by (rule breakpoints_maximum_frame)
  with Some assms(1,5) show ?thesis by (simp add: sized_def)
qed

lemma subscribed_fire: "subscribed v q \<Longrightarrow> fire_onDidChange q v = updateBreakpointsMaxSize v"
  by (rule fire_subscribed) (auto simp add: subscribed_def list_ex_iff)

lemma addPanels_body_sized:
  assumes "is_breakpoints K v e \<or> sized v"
  shows "sized (addPanels_body K e v)"
proof (cases "is_breakpoints K v e")
  case True
  then show ?thesis
    by (simp add: is_breakpoints_def addPanels_body_def sized_update)
next
  case False
  then have bp: "panel_id (store v (panel e)) \<noteq> BREAKPOINTS_VIEW_ID K"
    by (simp add: is_breakpoints_def)
  have "sized (addPanels_body K e v) = sized v"
    by (rule sized_frame) (simp_all add: addPanels_body_sibling_state [OF bp])
  with False assms show ?thesis by simp
qed

lemma addPanels_fold_is_breakpoints:
  "is_breakpoints K (fold (addPanels_body K) es v) = is_breakpoints K v"
  by (rule ext) (simp add: is_breakpoints_def addPanels_fold_id)

lemma addPanels_fold_sized:
  "list_ex (is_breakpoints K v) es \<or> sized v \<Longrightarrow> sized (fold (addPanels_body K) es v)"
proof (induction es arbitrary: v)
  case Nil
  then show ?case by simp
next
  case (Cons e es)
  have same: "is_breakpoints K (addPanels_body K e v) = is_breakpoints K v"
    using addPanels_fold_is_breakpoints [of K "[e]" v] by simp
  show ?case
  proof (cases "is_breakpoints K v e \<or> sized v")
    case True
    then have "sized (addPanels_body K e v)"
      by (rule addPanels_body_sized)
    then show ?thesis
      using Cons.IH [of "addPanels_body K e v"] by simp
  next
    case False
    with Cons.prems have "list_ex (is_breakpoints K (addPanels_body K e v)) es"
      by (simp add: same)
    then show ?thesis
      using Cons.IH [of "addPanels_body K e v"] by simp
  qed
qed

lemma addPanels_sized:
  assumes "list_ex (is_breakpoints K v) es"
  shows "sized (addPanels K es v)"
proof -
  have "is_breakpoints K (super_addPanels es v) = is_breakpoints K v"
    by (rule ext) (simp add: is_breakpoints_def super_addPanels_def)
  with assms show ?thesis
    by (simp add: addPanels_def addPanels_fold_sized)
qed

lemma addPanels_fold_siblings:
  "list_all (\<lambda>e. \<not> is_breakpoints K v e) es \<Longrightarrow>
   breakpointView (fold (addPanels_body K) es v) = breakpointView v \<and>
   maximumBodySize (store (fold (addPanels_body K) es v) p) = maximumBodySize (store v p)"
proof (induction es arbitrary: v)
  case Nil
  then show ?case by simp
next
  case (Cons e es)
  have same: "is_breakpoints K (addPanels_body K e v) = is_breakpoints K v"
    using addPanels_fold_is_breakpoints [of K "[e]" v] by simp
  from Cons.prems have bp: "panel_id (store v (panel e)) \<noteq> BREAKPOINTS_VIEW_ID K"
    by (simp add: is_breakpoints_def)
  from Cons.prems have "list_all (\<lambda>e'. \<not> is_breakpoints K (addPanels_body K e v) e') es"
    by (simp add: same)
  then have "breakpointView (fold (addPanels_body K) es (addPanels_body K e v)) =
        breakpointView (addPanels_body K e v) \<and>
      maximumBodySize (store (fold (addPanels_body K) es (addPanels_body K e v)) p) =
        maximumBodySize (store (addPanels_body K e v) p)"
    by (rule Cons.IH)
  then show ?case
    by (simp add: addPanels_body_sibling_state [OF bp])
qed

lemma addPanels_siblings:
  assumes "list_all (\<lambda>e. \<not> is_breakpoints K v e) es"
  shows "breakpointView (addPanels K es v) = breakpointView v"
    and "maximumBodySize (store (addPanels K es v) p) = maximumBodySize (store v p)"
proof -
  have "is_breakpoints K (super_addPanels es v) = is_breakpoints K v"
    by (rule ext) (simp add: is_breakpoints_def super_addPanels_def)
  with assms have "list_all (\<lambda>e. \<not> is_breakpoints K (super_addPanels es v) e) es"
    by simp
  from addPanels_fold_siblings [OF this, of p]
  show "breakpointView (addPanels K es v) = breakpointView v"
    and "maximumBodySize (store (addPanels K es v) p) = maximumBodySize (store v p)"
    by (simp_all add: addPanels_def) (simp_all add: super_addPanels_def)
qed

lemma siblings_fire:
  assumes "panelListeners_inv K v"
  shows "list_all (\<lambda>q. fire_onDidChange q v = updateBreakpointsMaxSize v) (siblings K v)"
  using assms by (simp add: panelListeners_inv_def list_all_iff subscribed_fire)

lemma addPanels_fold_breakpointView:
  "breakpointView (fold (addPanels_body K) es v) =
     (if list_ex (is_breakpoints K v) es
      then Some (panel (last (filter (is_breakpoints K v) es))) else breakpointView v)"
proof (induction es arbitrary: v)
  case Nil
  show ?case by simp
next
  case (Cons e es)
  have same: "is_breakpoints K (addPanels_body K e v) = is_breakpoints K v"
    using addPanels_fold_is_breakpoints [of K "[e]" v] by simp
  have head: "breakpointView (addPanels_body K e v) =
      (if is_breakpoints K v e then Some (panel e) else breakpointView v)"
    by (simp add: addPanels_body_def is_breakpoints_def update_fields onDidChange_subscribe_def)
  show ?case
    by (simp add: Cons.IH same head list_ex_iff filter_empty_conv)
qed

lemma addPanels_breakpointView:
  "breakpointView (addPanels K es v) =
     (if list_ex (is_breakpoints K v) es
      then Some (panel (last (filter (is_breakpoints K v) es))) else breakpointView v)"
proof -
  have "is_breakpoints K (super_addPanels es v) = is_breakpoints K v"
    by (rule ext) (simp add: is_breakpoints_def super_addPanels_def)
  then show ?thesis
    by (simp add: addPanels_def addPanels_fold_breakpointView) (simp add: super_addPanels_def)
qed

lemma addPanels_body_maximum:
  assumes "is_breakpoints K v e \<longrightarrow> panel e \<noteq> p"
  shows "maximumBodySize (store (addPanels_body K e v) p) = maximumBodySize (store v p)"
proof (cases "is_breakpoints K v e")
  case True
  with assms have "panel e \<noteq> p" by simp
  with True show ?thesis
    by (simp add: is_breakpoints_def addPanels_body_def update_assigns)
next
  case False
  then have "panel_id (store v (panel e)) \<noteq> BREAKPOINTS_VIEW_ID K"
    by (simp add: is_breakpoints_def)
  then show ?thesis
    by (simp add: addPanels_body_sibling_state)
qed

lemma addPanels_fold_maximum:
  "list_all (\<lambda>e. is_breakpoints K v e \<longrightarrow> panel e \<noteq> p) es \<Longrightarrow>
   maximumBodySize (store (fold (addPanels_body K) es v) p) = maximumBodySize (store v p)"
proof (induction es arbitrary: v)
  case Nil
  show ?case by simp
next
  case (Cons e es)
  have same: "is_breakpoints K (addPanels_body K e v) = is_breakpoints K v"
    using addPanels_fold_is_breakpoints [of K "[e]" v] by simp
  from Cons.prems
  have "list_all (\<lambda>e'. is_breakpoints K (addPanels_body K e v) e' \<longrightarrow> panel e' \<noteq> p) es"
    by (simp add: same)
  then have "maximumBodySize (store (fold (addPanels_body K) es (addPanels_body K e v)) p) =
      maximumBodySize (store (addPanels_body K e v) p)"
    by (rule Cons.IH)
  moreover from Cons.prems
  have "maximumBodySize (store (addPanels_body K e v) p) = maximumBodySize (store v p)"
    by (simp add: addPanels_body_maximum)
  ultimately show ?case by simp
qed

lemma addPanels_maximum:
  assumes "list_all (\<lambda>e. is_breakpoints K v e \<longrightarrow> panel e \<noteq> p) es"
  shows "maximumBodySize (store (addPanels K es v) p) = maximumBodySize (store v p)"
proof -
  have "is_breakpoints K (super_addPanels es v) = is_breakpoints K v"
    by (rule ext) (simp add: is_breakpoints_def super_addPanels_def)
  with assms
  have "list_all (\<lambda>e. is_breakpoints K (super_addPanels es v) e \<longrightarrow> panel e \<noteq> p) es"
    by simp
  from addPanels_fold_maximum [OF this] show ?thesis
    by (simp add: addPanels_def) (simp add: super_addPanels_def)
qed

lemma removePanels_breakpointView: "breakpointView (removePanels ps v) = breakpointView v"
  by (simp add: removePanels_def removePanels_fold_fields super_removePanels_def)

lemma fire_assigns:
  assumes "subscribed v q" and "breakpointView v = Some b"
  shows "maximumBodySize (store (fire_onDidChange q v) b) = breakpoints_maximum v b"
  using assms by (simp add: subscribed_fire update_assigns)

lemma siblings_fire_assigns:
  assumes "panelListeners_inv K v" and "breakpointView v = Some b"
  shows "list_all (\<lambda>q. maximumBodySize (store (fire_onDidChange q v) b) = breakpoints_maximum v b)
           (siblings K v)"
  using assms by (simp add: panelListeners_inv_def list_all_iff fire_assigns)

lemma run_append: "run K (cs @ ds) v = run K ds (run K cs v)"
  by (simp add: run_def)

lemma fire_breakpointView: "breakpointView (fire_onDidChange p v) = breakpointView v"
proof -
  have "breakpointView (fold (\<lambda>t. updateBreakpointsMaxSize) ts w) = breakpointView w"
    for ts :: "nat list" and w
    by (induction ts arbitrary: w) (simp_all add: update_fields)
  then show ?thesis
    unfolding fire_onDidChange_def .
qed

lemma fire_id: "panel_id (store (fire_onDidChange p v) q) = panel_id (store v q)"
  using same_panels_fire [of v p] by (simp add: same_panels_def)

lemma addPanels_panels: "panels (addPanels K es v) = panels v @ map panel es"
  by (simp add: addPanels_def addPanels_fold_panels super_addPanels_def)

lemma addPanels_id: "panel_id (store (addPanels K es v) p) = panel_id (store v p)"
  by (simp add: addPanels_def addPanels_fold_id super_addPanels_def)

lemma removePanels_id: "panel_id (store (removePanels ps v) p) = panel_id (store v p)"
  by (simp add: removePanels_def removePanels_fold_fields super_removePanels_def)

lemma fold_remove1_subset: "set (fold remove1 ps P) \<subseteq> set P"
proof (induction ps arbitrary: P)
  case Nil
  show ?case by simp
next
  case (Cons p ps)
  have "set (fold remove1 ps (remove1 p P)) \<subseteq> set (remove1 p P)"
    by (rule Cons.IH)
  also have "\<dots> \<subseteq> set P"
    by (rule set_remove1_subset)
  finally show ?case by simp
qed

lemma removePanels_panels_subset: "set (panels (removePanels ps v)) \<subseteq> set (panels v)"
  by (simp add: removePanels_def removePanels_fold_fields super_removePanels_def
      fold_remove1_subset)

subsection \<open>What removing panels disposes\<close>

lemma removed_entries_member:
  "m i = Some d \<Longrightarrow> i \<in> set js \<Longrightarrow> d \<in> set (removed_entries m js)"
proof (induction js arbitrary: m)
  case Nil
  then show ?case by simp
next
  case (Cons j js)
  show ?case
  proof (cases "j = i")
    case True
    with Cons.prems show ?thesis by simp
  next
    case False
    with Cons.prems have "(m(j := None)) i = Some d" and "i \<in> set js"
      by simp_all
    then have "d \<in> set (removed_entries (m(j := None)) js)"
      by (rule Cons.IH)
    then show ?thesis by simp
  qed
qed

lemma removed_entries_source:
  "d \<in> set (removed_entries m js) \<Longrightarrow> \<exists>i \<in> set js. m i = Some d"
proof (induction js arbitrary: m)
  case Nil
  then show ?case by simp
next
  case (Cons j js)
  from Cons.prems consider "m j = Some d" | "d \<in> set (removed_entries (m(j := None)) js)"
    by (auto split: option.splits)
  then show ?case
  proof cases
    case 1
    then show ?thesis by simp
  next
    case 2
    then obtain i where "i \<in> set js" "(m(j := None)) i = Some d"
      using Cons.IH by blast
    then show ?thesis
      by (auto split: if_splits)
  qed
qed

lemma removed_entries_absent:
  "list_all (\<lambda>i. m i = None) js \<Longrightarrow> removed_entries m js = []"
  by (induction js arbitrary: m) (simp_all add: fun_upd_idem)

lemma ids_of_Cons: "ids_of v (p # ps) = panel_id (store v p) # ids_of v ps"
  by (simp add: ids_of_def)

lemma dispose_trace:
  "trace (dispose d v) = trace v @ (case d of None \<Rightarrow> [] | Some x \<Rightarrow> [Disposed x])"
  by (cases "(d, v)" rule: dispose.cases) simp_all

lemma dispose_onDidChange:
  "onDidChange (store (dispose d v) q) =
     filter (\<lambda>t. d \<noteq> Some (Listener q t)) (onDidChange (store v q))"
  by (cases "(d, v)" rule: dispose.cases) (auto simp add: removeAll_filter_not_eq)

lemma removePanels_body_trace:
  "trace (removePanels_body p v) =
     trace v @ (case panelListeners v (panel_id (store v p)) of None \<Rightarrow> [] | Some x \<Rightarrow> [Disposed x])"
  by (simp add: removePanels_body_def Let_def dispose_trace)

lemma removePanels_body_onDidChange:
  "onDidChange (store (removePanels_body p v) q) =
     filter (\<lambda>t. panelListeners v (panel_id (store v p)) \<noteq> Some (Listener q t))
       (onDidChange (store v q))"
  by (simp add: removePanels_body_def Let_def dispose_onDidChange)

lemma removePanels_fold_trace:
  "trace (fold removePanels_body ps v) =
     trace v @ map Disposed (removed_entries (panelListeners v) (ids_of v ps))"
proof (induction ps arbitrary: v)
  case Nil
  show ?case by (simp add: ids_of_def)
next
  case (Cons p ps)
  let ?w = "removePanels_body p v"
  have m: "panelListeners ?w = (panelListeners v)(panel_id (store v p) := None)"
    by (rule removePanels_body_map)
  have ids: "ids_of ?w ps = ids_of v ps"
    by (rule removePanels_body_ids)
  have "trace (fold removePanels_body ps ?w) =
      trace ?w @ map Disposed (removed_entries (panelListeners ?w) (ids_of ?w ps))"
    by (rule Cons.IH)
  then have "trace (fold removePanels_body ps ?w) =
      trace ?w @ map Disposed
        (removed_entries ((panelListeners v)(panel_id (store v p) := None)) (ids_of v ps))"
    by (simp only: m ids)
  then show ?case
    by (cases "panelListeners v (panel_id (store v p))")
       (simp_all add: removePanels_body_trace ids_of_Cons)
qed

lemma removePanels_fold_onDidChange:
  "onDidChange (store (fold removePanels_body ps v) q) =
     filter (\<lambda>t. Listener q t \<notin> set (removed_entries (panelListeners v) (ids_of v ps)))
       (onDidChange (store v q))"
proof (induction ps arbitrary: v)
  case Nil
  show ?case by (simp add: ids_of_def)
next
  case (Cons p ps)
  let ?w = "removePanels_body p v"
  let ?R = "removed_entries ((panelListeners v)(panel_id (store v p) := None)) (ids_of v ps)"
  have m: "panelListeners ?w = (panelListeners v)(panel_id (store v p) := None)"
    by (rule removePanels_body_map)
  have ids: "ids_of ?w ps = ids_of v ps"
    by (rule removePanels_body_ids)
  have "onDidChange (store (fold removePanels_body ps ?w) q) =
      filter (\<lambda>t. Listener q t \<notin> set (removed_entries (panelListeners ?w) (ids_of ?w ps)))
        (onDidChange (store ?w q))"
    by (rule Cons.IH)
  then have "onDidChange (store (fold removePanels_body ps ?w) q) =
      filter (\<lambda>t. Listener q t \<notin> set ?R) (onDidChange (store ?w q))"
    by (simp only: m ids)
  then have step: "onDidChange (store (fold removePanels_body ps ?w) q) =
      filter (\<lambda>t. panelListeners v (panel_id (store v p)) \<noteq> Some (Listener q t) \<and>
          Listener q t \<notin> set ?R)
        (onDidChange (store v q))"
    by (simp add: removePanels_body_onDidChange)
  show ?case
  proof (cases "panelListeners v (panel_id (store v p))")
    case None
    with step show ?thesis
      by (simp add: ids_of_Cons)
  next
    case (Some d)
    have "(\<lambda>t. Some d \<noteq> Some (Listener q t) \<and> Listener q t \<notin> set ?R) =
        (\<lambda>t. Listener q t \<notin> set (d # ?R))"
      by auto
    with step Some show ?thesis
      by (simp add: ids_of_Cons)
  qed
qed

lemma removePanels_map:
  "panelListeners (removePanels ps v) =
     (\<lambda>k. if k \<in> set (ids_of v ps) then None else panelListeners v k)"
proof -
  have "panelListeners (super_removePanels ps v) = panelListeners v"
    and "ids_of (super_removePanels ps v) ps = ids_of v ps"
    by (simp_all add: super_removePanels_def ids_of_def)
  then show ?thesis
    by (simp add: removePanels_def removePanels_fold_map cong: if_cong)
qed

lemma removePanels_trace:
  "trace (removePanels ps v) =
     trace v @ map Disposed (removed_entries (panelListeners v) (ids_of v ps))"
proof -
  have "panelListeners (super_removePanels ps v) = panelListeners v"
    and "ids_of (super_removePanels ps v) ps = ids_of v ps"
    and "trace (super_removePanels ps v) = trace v"
    by (simp_all add: super_removePanels_def ids_of_def)
  then show ?thesis
    by (simp add: removePanels_def removePanels_fold_trace)
qed

lemma removePanels_onDidChange:
  "onDidChange (store (removePanels ps v) q) =
     filter (\<lambda>t. Listener q t \<notin> set (removed_entries (panelListeners v) (ids_of v ps)))
       (onDidChange (store v q))"
proof -
  have "panelListeners (super_removePanels ps v) = panelListeners v"
    and "ids_of (super_removePanels ps v) ps = ids_of v ps"
    and "store (super_removePanels ps v) = store v"
    by (simp_all add: super_removePanels_def ids_of_def)
  then show ?thesis
    by (simp add: removePanels_def removePanels_fold_onDidChange)
qed

text \<open>In every state the viewlet reaches, an entry of the map is under the id of its panel.\<close>

lemma entries_own_same: "same_panels v w \<Longrightarrow> entries_own w = entries_own v"
  by (simp add: same_panels_def entries_own_def)

lemma entries_own_frame:
  "store w = store v \<Longrightarrow> panelListeners w = panelListeners v \<Longrightarrow> entries_own w = entries_own v"
  by (simp add: entries_own_def)

lemma entries_own_addPanels_body:
  assumes "entries_own v"
  shows "entries_own (addPanels_body K e v)"
proof (cases "panel_id (store v (panel e)) = BREAKPOINTS_VIEW_ID K")
  case True
  then show ?thesis
    using assms entries_own_same [OF addPanels_body_breakpoints] by simp
next
  case False
  with assms show ?thesis
    by (simp add: addPanels_body_sibling_state entries_own_def)
qed

lemma entries_own_addPanels: "entries_own v \<Longrightarrow> entries_own (addPanels K es v)"
proof -
  have "entries_own w \<Longrightarrow> entries_own (fold (addPanels_body K) es w)" for w
    by (induction es arbitrary: w) (simp_all add: entries_own_addPanels_body)
  moreover have "entries_own (super_addPanels es v) = entries_own v"
    by (rule entries_own_frame) (simp_all add: super_addPanels_def)
  ultimately show "entries_own v \<Longrightarrow> entries_own (addPanels K es v)"
    by (simp add: addPanels_def)
qed

lemma entries_own_removePanels:
  assumes "entries_own v"
  shows "entries_own (removePanels ps v)"
  using assms by (simp add: entries_own_def removePanels_map removePanels_id)

lemma entries_own_exec: "entries_own v \<Longrightarrow> entries_own (exec K c v)"
proof (cases c)
  case (AddPanels es)
  then show "entries_own v \<Longrightarrow> ?thesis" by (simp add: entries_own_addPanels)
next
  case (RemovePanels ps)
  then show "entries_own v \<Longrightarrow> ?thesis" by (simp add: entries_own_removePanels)
next
  case (SetExpanded p b)
  then show "entries_own v \<Longrightarrow> ?thesis"
    by (simp add: entries_own_same [OF same_panels_setExpanded])
next
  case (FireDidChange p)
  then show "entries_own v \<Longrightarrow> ?thesis"
    by (simp add: entries_own_same [OF same_panels_fire])
next
  case GetActions
  then show "entries_own v \<Longrightarrow> ?thesis"
    by (simp add: entries_own_frame [OF getActions_attached(1,2)])
next
  case GetSecondaryActions
  then show "entries_own v \<Longrightarrow> ?thesis"
    by (simp add: entries_own_frame [OF getSecondaryActions_attached(1,2)])
next
  case (GetActionItem a)
  then show "entries_own v \<Longrightarrow> ?thesis"
    by (simp add: entries_own_frame [OF getActionItem_attached(1,2)])
next
  case Focus
  then show "entries_own v \<Longrightarrow> ?thesis"
    by (simp add: entries_own_frame [OF focus_attached(1,2)])
next
  case (DidChangeState st)
  have "entries_own (onDebugServiceStateChange st (v\<lparr>debugService_state := st\<rparr>)) = entries_own v"
    by (rule entries_own_frame) (simp_all add: stateChange_attached)
  with DidChangeState show "entries_own v \<Longrightarrow> ?thesis" by simp
next
  case (DidChangeConfiguration loc)
  have "entries_own (updateTitleArea (v\<lparr>toolBarLocation := loc\<rparr>)) = entries_own v"
    by (rule entries_own_frame) (simp_all add: updateTitleArea_def)
  with DidChangeConfiguration show "entries_own v \<Longrightarrow> ?thesis" by simp
next
  case DidChangeWorkbenchState
  have "entries_own (updateTitleArea v) = entries_own v"
    by (rule entries_own_frame) (simp_all add: updateTitleArea_def)
  with DidChangeWorkbenchState show "entries_own v \<Longrightarrow> ?thesis" by simp
qed

lemma entries_own_new: "entries_own (new_DebugViewlet st loc reg sto)"
  by (simp add: entries_own_def new_DebugViewlet_def)

lemma entries_own_run: "entries_own v \<Longrightarrow> entries_own (run K cs v)"
  unfolding run_def by (induction cs arbitrary: v) (simp_all add: entries_own_exec)

text \<open>
  A subscription is kept by every call but a \<open>removePanels\<close> with a panel of the same id.
\<close>

lemma addPanels_body_onDidChange:
  "set (onDidChange (store v q)) \<subseteq> set (onDidChange (store (addPanels_body K e v) q))"
proof (cases "panel_id (store v (panel e)) = BREAKPOINTS_VIEW_ID K")
  case True
  then show ?thesis
    using addPanels_body_breakpoints [of v e K] by (simp add: same_panels_def)
next
  case False
  then show ?thesis
    by (simp add: addPanels_body_sibling_state) auto
qed

lemma addPanels_fold_onDidChange:
  "set (onDidChange (store v q)) \<subseteq> set (onDidChange (store (fold (addPanels_body K) es v) q))"
proof (induction es arbitrary: v)
  case Nil
  show ?case by simp
next
  case (Cons e es)
  have "set (onDidChange (store v q)) \<subseteq> set (onDidChange (store (addPanels_body K e v) q))"
    by (rule addPanels_body_onDidChange)
  also have "\<dots> \<subseteq> set (onDidChange (store (fold (addPanels_body K) es (addPanels_body K e v)) q))"
    by (rule Cons.IH)
  finally show ?case by simp
qed

lemma addPanels_onDidChange:
  "set (onDidChange (store v q)) \<subseteq> set (onDidChange (store (addPanels K es v) q))"
  using addPanels_fold_onDidChange [of "super_addPanels es v" q K es]
  by (simp add: addPanels_def) (simp add: super_addPanels_def)

lemma addPanels_fold_subscribes:
  "e \<in> set es \<Longrightarrow> \<not> is_breakpoints K v e \<Longrightarrow>
   onDidChange (store (fold (addPanels_body K) es v) (panel e)) \<noteq> []"
proof (induction es arbitrary: v)
  case Nil
  then show ?case by simp
next
  case (Cons x es)
  have same: "is_breakpoints K (addPanels_body K x v) = is_breakpoints K v"
    using addPanels_fold_is_breakpoints [of K "[x]" v] by simp
  show ?case
  proof (cases "x = e")
    case True
    with Cons.prems(2) have "panel_id (store v (panel e)) \<noteq> BREAKPOINTS_VIEW_ID K"
      by (simp add: is_breakpoints_def)
    then have "fresh v \<in> set (onDidChange (store (addPanels_body K e v) (panel e)))"
      by (simp add: addPanels_body_sibling_state)
    with True addPanels_fold_onDidChange [of "addPanels_body K x v" "panel e" K es]
    show ?thesis by auto
  next
    case False
    with Cons.prems have "e \<in> set es" and "\<not> is_breakpoints K (addPanels_body K x v) e"
      by (simp_all add: same)
    then show ?thesis
      using Cons.IH [of "addPanels_body K x v"] by simp
  qed
qed

lemma addPanels_subscribes:
  assumes "e \<in> set es" and "\<not> is_breakpoints K v e"
  shows "onDidChange (store (addPanels K es v) (panel e)) \<noteq> []"
proof -
  have "is_breakpoints K (super_addPanels es v) = is_breakpoints K v"
    by (rule ext) (simp add: is_breakpoints_def super_addPanels_def)
  with assms show ?thesis
    by (simp add: addPanels_def addPanels_fold_subscribes)
qed

lemma removePanels_keeps_onDidChange:
  assumes own: "entries_own v" and id: "panel_id (store v q) \<notin> set (ids_of v ps)"
  shows "onDidChange (store (removePanels ps v) q) = onDidChange (store v q)"
proof -
  have "Listener q t \<notin> set (removed_entries (panelListeners v) (ids_of v ps))" for t
  proof
    assume "Listener q t \<in> set (removed_entries (panelListeners v) (ids_of v ps))"
    then obtain i where "i \<in> set (ids_of v ps)" "panelListeners v i = Some (Listener q t)"
      using removed_entries_source by blast
    with own have "panel_id (store v q) \<in> set (ids_of v ps)"
      by (auto simp add: entries_own_def)
    with id show False by simp
  qed
  then show ?thesis
    by (simp add: removePanels_onDidChange)
qed

lemma exec_keeps_onDidChange:
  assumes "entries_own v" and "\<not> cancels c v q"
  shows "set (onDidChange (store v q)) \<subseteq> set (onDidChange (store (exec K c v) q))"
proof (cases c)
  case (AddPanels es)
  then show ?thesis by (simp add: addPanels_onDidChange)
next
  case (RemovePanels ps)
  with assms show ?thesis by (simp add: removePanels_keeps_onDidChange)
next
  case (SetExpanded p b)
  then show ?thesis
    using same_panels_setExpanded [of v p b] by (simp add: same_panels_def)
next
  case (FireDidChange p)
  then show ?thesis
    using same_panels_fire [of v p] by (simp add: same_panels_def)
next
  case GetActions
  then show ?thesis by (simp add: getActions_attached)
next
  case GetSecondaryActions
  then show ?thesis by (simp add: getSecondaryActions_attached)
next
  case (GetActionItem a)
  then show ?thesis by (simp add: getActionItem_attached)
next
  case Focus
  then show ?thesis by (simp add: focus_attached)
next
  case (DidChangeState st)
  then show ?thesis by (simp add: stateChange_attached)
next
  case (DidChangeConfiguration loc)
  then show ?thesis by (simp add: updateTitleArea_def)
next
  case DidChangeWorkbenchState
  then show ?thesis by (simp add: updateTitleArea_def)
qed

lemma run_keeps_onDidChange:
  "entries_own v \<Longrightarrow> uncancelled K cs v q \<Longrightarrow>
   set (onDidChange (store v q)) \<subseteq> set (onDidChange (store (run K cs v) q))"
proof (induction cs arbitrary: v)
  case Nil
  show ?case by (simp add: run_def)
next
  case (Cons c cs)
  from Cons.prems have "set (onDidChange (store v q)) \<subseteq> set (onDidChange (store (exec K c v) q))"
    by (simp add: exec_keeps_onDidChange)
  also have "\<dots> \<subseteq> set (onDidChange (store (run K cs (exec K c v)) q))"
    using Cons.prems by (intro Cons.IH entries_own_exec) simp_all
  finally show ?case by (simp add: run_def)
qed

lemma fire_exact:
  "fire_onDidChange q v =
     (if onDidChange (store v q) = [] then v else updateBreakpointsMaxSize v)"
  by (simp add: fire_subscribed fire_unsubscribed)

text \<open>
  The remembered breakpoints panel is kept by every call that attaches no panel with the
  breakpoints id.
\<close>

lemma exec_keeps_breakpointView:
  assumes "\<not> attaches_breakpoints K c v"
  shows "breakpointView (exec K c v) = breakpointView v"
proof (cases c)
  case (AddPanels es)
  with assms have "list_all (\<lambda>e. \<not> is_breakpoints K v e) es"
    by (simp add: list_all_iff list_ex_iff)
  with AddPanels show ?thesis by (simp add: addPanels_siblings)
next
  case (RemovePanels ps)
  then show ?thesis by (simp add: removePanels_breakpointView)
next
  case (SetExpanded p b)
  then show ?thesis by (simp add: setExpanded_def fire_breakpointView)
next
  case (FireDidChange p)
  then show ?thesis by (simp add: fire_breakpointView)
next
  case GetActions
  then show ?thesis by (simp add: getActions_attached)
next
  case GetSecondaryActions
  then show ?thesis by (simp add: getSecondaryActions_attached)
next
  case (GetActionItem a)
  then show ?thesis by (simp add: getActionItem_attached)
next
  case Focus
  then show ?thesis by (simp add: focus_attached)
next
  case (DidChangeState st)
  then show ?thesis by (simp add: stateChange_attached)
next
  case (DidChangeConfiguration loc)
  then show ?thesis by (simp add: updateTitleArea_def)
next
  case DidChangeWorkbenchState
  then show ?thesis by (simp add: updateTitleArea_def)
qed

lemma run_keeps_breakpointView:
  "no_breakpoints_attached K cs v \<Longrightarrow> breakpointView (run K cs v) = breakpointView v"
proof (induction cs arbitrary: v)
  case Nil
  show ?case by (simp add: run_def)
next
  case (Cons c cs)
  then have "breakpointView (run K cs (exec K c v)) = breakpointView (exec K c v)"
    by simp
  with Cons.prems show ?case
    by (simp add: run_def exec_keeps_breakpointView)
qed

text \<open>The keys of the map after attaching.\<close>

lemma addPanels_fold_dom:
  "dom (panelListeners (fold (addPanels_body K) es v)) =
     dom (panelListeners v) \<union>
     set (ids_of v (filter (\<lambda>p. panel_id (store v p) \<noteq> BREAKPOINTS_VIEW_ID K) (map panel es)))"
proof (induction es arbitrary: v)
  case Nil
  show ?case by (simp add: ids_of_def)
next
  case (Cons e es)
  let ?w = "addPanels_body K e v"
  have ids: "ids_of ?w M = ids_of v M" for M
    by (rule addPanels_body_ids)
  have rest: "filter (\<lambda>p. panel_id (store ?w p) \<noteq> BREAKPOINTS_VIEW_ID K) (map panel es) =
      filter (\<lambda>p. panel_id (store v p) \<noteq> BREAKPOINTS_VIEW_ID K) (map panel es)"
    by (simp add: addPanels_body_id)
  have "dom (panelListeners (fold (addPanels_body K) es ?w)) =
      dom (panelListeners ?w) \<union>
      set (ids_of ?w (filter (\<lambda>p. panel_id (store ?w p) \<noteq> BREAKPOINTS_VIEW_ID K) (map panel es)))"
    by (rule Cons.IH)
  then have step: "dom (panelListeners (fold (addPanels_body K) es ?w)) =
      dom (panelListeners ?w) \<union>
      set (ids_of v (filter (\<lambda>p. panel_id (store v p) \<noteq> BREAKPOINTS_VIEW_ID K) (map panel es)))"
    by (simp only: rest ids)
  show ?case
  proof (cases "panel_id (store v (panel e)) = BREAKPOINTS_VIEW_ID K")
    case True
    then have "panelListeners ?w = panelListeners v"
      using addPanels_body_breakpoints [of v e K] by (simp add: same_panels_def)
    with True step show ?thesis by simp
  next
    case False
    then have "dom (panelListeners ?w) = insert (panel_id (store v (panel e))) (dom (panelListeners v))"
      by (simp add: addPanels_body_sibling_state)
    with False step show ?thesis by (simp add: ids_of_def)
  qed
qed

lemma addPanels_dom:
  "dom (panelListeners (addPanels K es v)) =
     dom (panelListeners v) \<union>
     set (ids_of v (filter (\<lambda>p. panel_id (store v p) \<noteq> BREAKPOINTS_VIEW_ID K) (map panel es)))"
  using addPanels_fold_dom [of K es "super_addPanels es v"]
  by (simp add: addPanels_def) (simp add: super_addPanels_def ids_of_def)

text \<open>
  An attach assigns to every panel that it attaches as a breakpoints panel the maximum of
  the sizing rule.
\<close>

lemma addPanels_body_frame:
  "panels (addPanels_body K e v) = panels v"
  "isExpanded (store (addPanels_body K e v) p) = isExpanded (store v p)"
  "minimumBodySize (store (addPanels_body K e v) p) = minimumBodySize (store v p)"
  by (simp_all add: addPanels_body_def update_fields update_store onDidChange_subscribe_def)

lemma addPanels_body_assigned:
  assumes "(is_breakpoints K v e \<and> panel e = p) \<or>
      maximumBodySize (store v p) = breakpoints_maximum v p"
  shows "maximumBodySize (store (addPanels_body K e v) p) =
      breakpoints_maximum (addPanels_body K e v) p"
proof -
  have bm: "breakpoints_maximum (addPanels_body K e v) p = breakpoints_maximum v p"
    by (rule breakpoints_maximum_frame) (simp_all add: addPanels_body_frame)
  show ?thesis
  proof (cases "is_breakpoints K v e \<and> panel e = p")
    case True
    have "breakpoints_maximum (v\<lparr>breakpointView := Some p\<rparr>) p = breakpoints_maximum v p"
      by (simp add: breakpoints_maximum_def)
    moreover from True have "panel e = p" and "panel_id (store v p) = BREAKPOINTS_VIEW_ID K"
      by (auto simp add: is_breakpoints_def)
    ultimately
    have "maximumBodySize (store (addPanels_body K e v) p) = breakpoints_maximum v p"
      by (simp add: addPanels_body_def update_assigns)
    with bm show ?thesis by simp
  next
    case False
    then have "is_breakpoints K v e \<longrightarrow> panel e \<noteq> p"
      by simp
    then have "maximumBodySize (store (addPanels_body K e v) p) = maximumBodySize (store v p)"
      by (rule addPanels_body_maximum)
    with False assms bm show ?thesis by auto
  qed
qed

lemma addPanels_fold_assigned:
  "list_ex (\<lambda>e. is_breakpoints K v e \<and> panel e = p) es \<or>
     maximumBodySize (store v p) = breakpoints_maximum v p \<Longrightarrow>
   maximumBodySize (store (fold (addPanels_body K) es v) p) =
     breakpoints_maximum (fold (addPanels_body K) es v) p"
proof (induction es arbitrary: v)
  case Nil
  then show ?case by simp
next
  case (Cons e es)
  have same: "is_breakpoints K (addPanels_body K e v) = is_breakpoints K v"
    using addPanels_fold_is_breakpoints [of K "[e]" v] by simp
  show ?case
  proof (cases "(is_breakpoints K v e \<and> panel e = p) \<or>
      maximumBodySize (store v p) = breakpoints_maximum v p")
    case True
    then have "maximumBodySize (store (addPanels_body K e v) p) =
        breakpoints_maximum (addPanels_body K e v) p"
      by (rule addPanels_body_assigned)
    then show ?thesis
      using Cons.IH [of "addPanels_body K e v"] by simp
  next
    case False
    with Cons.prems
    have "list_ex (\<lambda>e'. is_breakpoints K (addPanels_body K e v) e' \<and> panel e' = p) es"
      by (auto simp add: same)
    then show ?thesis
      using Cons.IH [of "addPanels_body K e v"] by simp
  qed
qed

lemma addPanels_assigned:
  assumes "e \<in> set es" and "is_breakpoints K v e"
  shows "maximumBodySize (store (addPanels K es v) (panel e)) =
      breakpoints_maximum (addPanels K es v) (panel e)"
proof -
  have "is_breakpoints K (super_addPanels es v) = is_breakpoints K v"
    by (rule ext) (simp add: is_breakpoints_def super_addPanels_def)
  with assms
  have "list_ex (\<lambda>e'. is_breakpoints K (super_addPanels es v) e' \<and> panel e' = panel e) es"
    by (auto simp add: list_ex_iff)
  then show ?thesis
    by (simp add: addPanels_def addPanels_fold_assigned)
qed

text \<open>
  The "changed" event of a panel attached as a sibling runs the recomputation until a
  \<open>removePanels\<close> is called with a panel of its id.
\<close>

lemma attached_sibling_fires:
  assumes "e \<in> set es" and "\<not> is_breakpoints K (run K cs (new_DebugViewlet st loc reg sto)) e"
    and "uncancelled K ds (addPanels K es (run K cs (new_DebugViewlet st loc reg sto))) (panel e)"
  shows "fire_onDidChange (panel e)
      (run K ds (addPanels K es (run K cs (new_DebugViewlet st loc reg sto)))) =
    updateBreakpointsMaxSize
      (run K ds (addPanels K es (run K cs (new_DebugViewlet st loc reg sto))))"
proof -
  let ?u = "run K cs (new_DebugViewlet st loc reg sto)"
  let ?w = "addPanels K es ?u"
  have "entries_own ?u"
    by (intro entries_own_run entries_own_new)
  then have own: "entries_own ?w"
    by (rule entries_own_addPanels)
  have "onDidChange (store ?w (panel e)) \<noteq> []"
    using assms(1,2) by (rule addPanels_subscribes)
  moreover have "set (onDidChange (store ?w (panel e))) \<subseteq>
      set (onDidChange (store (run K ds ?w) (panel e)))"
    using own assms(3) by (rule run_keeps_onDidChange)
  ultimately have "onDidChange (store (run K ds ?w) (panel e)) \<noteq> []"
    by auto
  then show ?thesis
    by (simp add: fire_exact)
qed

text \<open>
  Under the contract, the events of the attached siblings size the panel that was
  remembered when panels were removed, until a breakpoints panel is attached.
\<close>

lemma after_removePanels_siblings:
  assumes ok: "calls_ok K (cs @ RemovePanels ps # ds) (new_DebugViewlet st loc reg sto)"
    and bp: "breakpointView (run K cs (new_DebugViewlet st loc reg sto)) = Some b"
    and no: "no_breakpoints_attached K ds
      (run K (cs @ [RemovePanels ps]) (new_DebugViewlet st loc reg sto))"
  shows "list_all
      (\<lambda>q. maximumBodySize
             (store (fire_onDidChange q
                (run K (cs @ RemovePanels ps # ds) (new_DebugViewlet st loc reg sto))) b) =
           breakpoints_maximum
             (run K (cs @ RemovePanels ps # ds) (new_DebugViewlet st loc reg sto)) b)
      (siblings K (run K (cs @ RemovePanels ps # ds) (new_DebugViewlet st loc reg sto)))"
proof -
  let ?v0 = "new_DebugViewlet st loc reg sto"
  have "panelListeners_inv K (run K (cs @ RemovePanels ps # ds) ?v0)"
    using ok unfolding run_def by (intro panelListeners_inv_fold panelListeners_inv_new)
  moreover have "breakpointView (run K (cs @ [RemovePanels ps]) ?v0) = Some b"
    using bp by (simp add: run_append) (simp add: run_def removePanels_breakpointView)
  then have "breakpointView (run K ds (run K (cs @ [RemovePanels ps]) ?v0)) = Some b"
    using no by (simp add: run_keeps_breakpointView)
  then have "breakpointView (run K (cs @ RemovePanels ps # ds) ?v0) = Some b"
    by (simp add: run_def)
  ultimately show ?thesis
    by (rule siblings_fire_assigns)
qed

subsection \<open>The panels: the claims\<close>

text \<open>
  Claim C6, as amended. Starting from the empty map of a new viewlet, after every
  sequence of calls in which (a) the non-breakpoints panels attached by one \<open>addPanels\<close>
  have ids that differ from each other and from the ids of the non-breakpoints panels
  already attached, and (b) every panel passed to \<open>removePanels\<close> is attached or has the
  id of no attached non-breakpoints panel, the panel-listener map holds exactly one
  subscription entry per attached non-breakpoints panel: these panels have different ids,
  the keys of the map are their ids (a breakpoints panel has no entry), and the entry of
  each is a live subscription of that panel's "changed" event. In every state,
  \<open>addPanels\<close> with a non-breakpoints panel enters a new live subscription of that panel
  under its id, and with a breakpoints panel makes no entry and remembers the panel; for
  a list of panels, the keys of the map grow by the ids of the non-breakpoints panels of
  the list. In every state, \<open>removePanels\<close> deletes the entries under the ids of the
  panels passed to it and disposes each entry that it finds there: the disposals are
  recorded in that order, and the subscriptions disposed are no longer live.
\<close>

theorem panelListeners_invariant:
  "(calls_ok K cs (new_DebugViewlet st loc reg sto) \<longrightarrow>
      panelListeners_inv K (run K cs (new_DebugViewlet st loc reg sto))) \<and>
   (\<not> is_breakpoints K v e \<longrightarrow>
      panelListeners (addPanels K [e] v) =
        (panelListeners v)(panel_id (store v (panel e)) \<mapsto> Listener (panel e) (fresh v)) \<and>
      subscribed (addPanels K [e] v) (panel e)) \<and>
   (is_breakpoints K v f \<longrightarrow>
      panelListeners (addPanels K [f] v) = panelListeners v \<and>
      breakpointView (addPanels K [f] v) = Some (panel f)) \<and>
   dom (panelListeners (addPanels K es v)) =
     dom (panelListeners v) \<union>
     set (ids_of v (filter (\<lambda>p. panel_id (store v p) \<noteq> BREAKPOINTS_VIEW_ID K) (map panel es))) \<and>
   panelListeners (removePanels ps v) =
     (\<lambda>k. if k \<in> set (ids_of v ps) then None else panelListeners v k) \<and>
   trace (removePanels ps v) =
     trace v @ map Disposed (removed_entries (panelListeners v) (ids_of v ps)) \<and>
   onDidChange (store (removePanels ps v) q) =
     filter (\<lambda>t. Listener q t \<notin> set (removed_entries (panelListeners v) (ids_of v ps)))
       (onDidChange (store v q))"
proof -
  have "panelListeners_inv K (run K cs (new_DebugViewlet st loc reg sto))"
    if "calls_ok K cs (new_DebugViewlet st loc reg sto)"
    using that unfolding run_def by (intro panelListeners_inv_fold panelListeners_inv_new)
  moreover have "panelListeners (addPanels K [e] v) =
        (panelListeners v)(panel_id (store v (panel e)) \<mapsto> Listener (panel e) (fresh v)) \<and>
      subscribed (addPanels K [e] v) (panel e)"
    if "\<not> is_breakpoints K v e"
    using that
    by (simp add: is_breakpoints_def addPanels_def addPanels_body_def super_addPanels_def
        onDidChange_subscribe_def subscribed_def)
  moreover have "panelListeners (addPanels K [f] v) = panelListeners v \<and>
      breakpointView (addPanels K [f] v) = Some (panel f)"
    if "is_breakpoints K v f"
    using that
    by (simp add: is_breakpoints_def addPanels_def addPanels_body_def super_addPanels_def
        update_fields)
  moreover note addPanels_dom [of K es v] removePanels_map [of ps v] removePanels_trace [of ps v]
    removePanels_onDidChange [of ps v q]
  ultimately show ?thesis by blast
qed

text \<open>
  The theorem at the example sequence, which respects the contract.
\<close>

theorem panelListeners_invariant_witness:
  "calls_ok example_imported example_calls example_viewlet \<and>
   \<not> is_breakpoints example_imported example_viewlet (example_arg 1) \<and>
   is_breakpoints example_imported example_viewlet (example_arg 0) \<and>
   panelListeners_inv example_imported (run example_imported example_calls example_viewlet) \<and>
   subscribed (addPanels example_imported [example_arg 1] example_viewlet) 1 \<and>
   breakpointView (addPanels example_imported [example_arg 0] example_viewlet) = Some 0"
proof -
  have 1: "calls_ok example_imported example_calls example_viewlet"
    by (simp add: example_calls_def eval_defs)
  have 2: "\<not> is_breakpoints example_imported example_viewlet (example_arg 1)"
    by (simp add: is_breakpoints_def eval_defs)
  have 3: "is_breakpoints example_imported example_viewlet (example_arg 0)"
    by (simp add: is_breakpoints_def eval_defs)
  have 4: "panel (example_arg 1) = 1" "panel (example_arg 0) = 0"
    by (simp_all add: example_arg_def)
  note th = panelListeners_invariant [where K = example_imported and cs = example_calls
      and st = Running and loc = "''docked''" and reg = "\<lambda>m. []" and sto = example_store
      and v = example_viewlet and e = "example_arg 1" and f = "example_arg 0" and ps = "[]"
      and es = "[]" and q = 0,
      folded example_viewlet_def]
  from th 1
  have 5: "panelListeners_inv example_imported (run example_imported example_calls example_viewlet)"
    by blast
  from th 2
  have "subscribed (addPanels example_imported [example_arg 1] example_viewlet)
      (panel (example_arg 1))"
    by blast
  then have 6: "subscribed (addPanels example_imported [example_arg 1] example_viewlet) 1"
    by (simp only: 4)
  from th 3
  have "breakpointView (addPanels example_imported [example_arg 0] example_viewlet) =
      Some (panel (example_arg 0))"
    by blast
  then have 7: "breakpointView (addPanels example_imported [example_arg 0] example_viewlet) =
      Some 0"
    by (simp only: 4)
  show ?thesis
    by (intro conjI) (fact 1 2 3 5 6 7)+
qed

text \<open>
  Claim C6 as stated fails when the ids of attached non-breakpoints panels coincide, and
  when a panel is removed that is detached and has the id of an attached one. Two panels
  with the id of the variables view, attached by one call or by two, share the one entry
  of the second. After the first of them is removed, the second is attached, is not a
  breakpoints panel, and has neither an entry nor a live subscription. After a
  \<open>removePanels\<close> with the detached panel 4, the attached panel 1 of the same id has
  neither an entry nor a live subscription.
\<close>

theorem panelListeners_duplicate_id_counterexample:
  "panels (run example_imported duplicate_attach_calls example_viewlet) = [1, 4] \<and>
   siblings example_imported (run example_imported duplicate_attach_calls example_viewlet) =
     [1, 4] \<and>
   dom (panelListeners (run example_imported duplicate_attach_calls example_viewlet)) =
     {''variables''} \<and>
   panelListeners (run example_imported duplicate_attach_calls example_viewlet) ''variables'' =
     Some (Listener 4 1) \<and>
   \<not> panelListeners_inv example_imported
       (run example_imported duplicate_attach_calls example_viewlet) \<and>
   panels (run example_imported successive_duplicate_calls example_viewlet) = [1, 4] \<and>
   dom (panelListeners (run example_imported successive_duplicate_calls example_viewlet)) =
     {''variables''} \<and>
   \<not> panelListeners_inv example_imported
       (run example_imported successive_duplicate_calls example_viewlet) \<and>
   panels (run example_imported duplicate_id_calls example_viewlet) = [4] \<and>
   panel_id (store (run example_imported duplicate_id_calls example_viewlet) 4)
     \<noteq> BREAKPOINTS_VIEW_ID example_imported \<and>
   panelListeners (run example_imported duplicate_id_calls example_viewlet)
     (panel_id (store (run example_imported duplicate_id_calls example_viewlet) 4)) = None \<and>
   onDidChange (store (run example_imported duplicate_id_calls example_viewlet) 4) = [] \<and>
   \<not> panelListeners_inv example_imported
       (run example_imported duplicate_id_calls example_viewlet) \<and>
   panels (run example_imported stale_remove_calls example_viewlet) = [1] \<and>
   panel_id (store (run example_imported stale_remove_calls example_viewlet) 1)
     \<noteq> BREAKPOINTS_VIEW_ID example_imported \<and>
   panelListeners (run example_imported stale_remove_calls example_viewlet)
     (panel_id (store (run example_imported stale_remove_calls example_viewlet) 1)) = None \<and>
   onDidChange (store (run example_imported stale_remove_calls example_viewlet) 1) = [] \<and>
   \<not> panelListeners_inv example_imported
       (run example_imported stale_remove_calls example_viewlet)"
  by (simp add: duplicate_id_calls_def duplicate_attach_calls_def successive_duplicate_calls_def
      stale_remove_calls_def eval_defs panelListeners_inv_def)

text \<open>
  Claim C7, as amended. If none of the panels passed to \<open>removePanels\<close> has an entry
  under its id in the panel-listener map, the call leaves the map unchanged and disposes
  nothing (the trace and the subscriptions in the store are unchanged); so does every
  second call with the same panels, whatever the first one did. A call with any list of
  panels deletes the entries under the ids of these panels, disposes exactly the entries
  that it finds there, in order, and these are the subscriptions that are no longer live
  afterwards. So for each panel of the list, the entry stored under its id is deleted and
  disposed; the panel's own listener is released when it is the entry stored under the
  panel's id.
\<close>

theorem removePanels_idempotent:
  "(list_all (\<lambda>p. panelListeners v (panel_id (store v p)) = None) ps \<longrightarrow>
      panelListeners (removePanels ps v) = panelListeners v \<and>
      trace (removePanels ps v) = trace v \<and>
      store (removePanels ps v) = store v) \<and>
   panelListeners (removePanels ps (removePanels ps v)) = panelListeners (removePanels ps v) \<and>
   trace (removePanels ps (removePanels ps v)) = trace (removePanels ps v) \<and>
   store (removePanels ps (removePanels ps v)) = store (removePanels ps v) \<and>
   panelListeners (removePanels rs v) =
     (\<lambda>k. if k \<in> set (ids_of v rs) then None else panelListeners v k) \<and>
   trace (removePanels rs v) =
     trace v @ map Disposed (removed_entries (panelListeners v) (ids_of v rs)) \<and>
   onDidChange (store (removePanels rs v) q) =
     filter (\<lambda>t. Listener q t \<notin> set (removed_entries (panelListeners v) (ids_of v rs)))
       (onDidChange (store v q)) \<and>
   (p \<in> set rs \<and> panelListeners v (panel_id (store v p)) = Some d \<longrightarrow>
      d \<in> set (removed_entries (panelListeners v) (ids_of v rs)) \<and>
      Disposed d \<in> set (trace (removePanels rs v)) \<and>
      panelListeners (removePanels rs v) (panel_id (store v p)) = None) \<and>
   (p \<in> set rs \<and> panelListeners v (panel_id (store v p)) = Some (Listener p t) \<longrightarrow>
      Disposed (Listener p t) \<in> set (trace (removePanels rs v)) \<and>
      t \<notin> set (onDidChange (store (removePanels rs v) p)))"
proof -
  have first: "panelListeners (removePanels ps v) = panelListeners v \<and>
      trace (removePanels ps v) = trace v \<and> store (removePanels ps v) = store v"
    if "list_all (\<lambda>p. panelListeners v (panel_id (store v p)) = None) ps" for ps v
    using that by (simp add: removePanels_absent) (simp add: super_removePanels_def)
  have second: "panelListeners (removePanels ps (removePanels ps v)) =
        panelListeners (removePanels ps v) \<and>
      trace (removePanels ps (removePanels ps v)) = trace (removePanels ps v) \<and>
      store (removePanels ps (removePanels ps v)) = store (removePanels ps v)"
    using removePanels_cleared by (rule first)
  have found: "d \<in> set (removed_entries (panelListeners v) (ids_of v rs))"
    if "p \<in> set rs" and "panelListeners v (panel_id (store v p)) = Some d" for d
  proof -
    from that(1) have "panel_id (store v p) \<in> set (ids_of v rs)"
      by (simp add: ids_of_def)
    with that(2) show ?thesis
      by (rule removed_entries_member)
  qed
  have entry: "d \<in> set (removed_entries (panelListeners v) (ids_of v rs)) \<and>
      Disposed d \<in> set (trace (removePanels rs v)) \<and>
      panelListeners (removePanels rs v) (panel_id (store v p)) = None"
    if "p \<in> set rs" and "panelListeners v (panel_id (store v p)) = Some d"
    using found [OF that] that(1)
    by (simp add: removePanels_trace removePanels_map ids_of_def)
  have own: "Disposed (Listener p t) \<in> set (trace (removePanels rs v)) \<and>
      t \<notin> set (onDidChange (store (removePanels rs v) p))"
    if "p \<in> set rs" and "panelListeners v (panel_id (store v p)) = Some (Listener p t)"
    using found [OF that]
    by (simp add: removePanels_trace removePanels_onDidChange)
  note removePanels_map [of rs v] removePanels_trace [of rs v] removePanels_onDidChange [of rs v q]
  with first second entry own show ?thesis by blast
qed

text \<open>
  The theorem at the state with the breakpoints panel 0 and the sibling 1 attached,
  where the panels 2 and 0 have no entry and panel 1 has its subscription.
\<close>

theorem removePanels_idempotent_witness:
  "list_all (\<lambda>p. panelListeners (run example_imported attached_calls example_viewlet)
      (panel_id (store (run example_imported attached_calls example_viewlet) p)) = None) [2, 0] \<and>
   (1::nat) \<in> set [1] \<and>
   panelListeners (run example_imported attached_calls example_viewlet)
      (panel_id (store (run example_imported attached_calls example_viewlet) 1)) =
      Some (Listener 1 0) \<and>
   panelListeners (removePanels [2, 0] (run example_imported attached_calls example_viewlet)) =
     panelListeners (run example_imported attached_calls example_viewlet) \<and>
   trace (removePanels [2, 0] (run example_imported attached_calls example_viewlet)) =
     trace (run example_imported attached_calls example_viewlet) \<and>
   Disposed (Listener 1 0) \<in>
     set (trace (removePanels [1] (run example_imported attached_calls example_viewlet))) \<and>
   0 \<notin> set (onDidChange
     (store (removePanels [1] (run example_imported attached_calls example_viewlet)) 1)) \<and>
   panelListeners (removePanels [1] (run example_imported attached_calls example_viewlet))
     (panel_id (store (run example_imported attached_calls example_viewlet) 1)) = None"
proof -
  let ?v = "run example_imported attached_calls example_viewlet"
  have 1: "list_all (\<lambda>p. panelListeners ?v (panel_id (store ?v p)) = None) [2, 0]"
    by (simp add: attached_calls_def eval_defs)
  have 2: "(1::nat) \<in> set [1]"
    by simp
  have 3: "panelListeners ?v (panel_id (store ?v 1)) = Some (Listener 1 0)"
    by (simp add: attached_calls_def eval_defs)
  note th = removePanels_idempotent [where v = ?v and ps = "[2, 0]" and rs = "[1]" and p = 1
      and d = "Listener 1 0" and t = 0 and q = 1]
  from th 1 have 4: "panelListeners (removePanels [2, 0] ?v) = panelListeners ?v"
    by blast
  from th 1 have 5: "trace (removePanels [2, 0] ?v) = trace ?v"
    by blast
  from th 2 3 have 6: "Disposed (Listener 1 0) \<in> set (trace (removePanels [1] ?v))"
    by blast
  from th 2 3 have 7: "0 \<notin> set (onDidChange (store (removePanels [1] ?v) 1))"
    by blast
  from th 2 3 have 8: "panelListeners (removePanels [1] ?v) (panel_id (store ?v 1)) = None"
    by blast
  show ?thesis
    by (intro conjI) (fact 1 2 3 4 5 6 7 8)+
qed

text \<open>
  Claim C7 as stated fails for a panel whose id is shared: after the panels 1 and 4,
  both with the id of the variables view, are attached, the entry under that id is the
  subscription of panel 4. A single call of \<open>removePanels\<close> with panel 1 disposes the
  subscription of panel 4, and the listener of panel 1 stays live.
\<close>

theorem removePanels_shared_id_counterexample:
  "panels (run example_imported duplicate_attach_calls example_viewlet) = [1, 4] \<and>
   panel_id (store (run example_imported duplicate_attach_calls example_viewlet) 1) =
     ''variables'' \<and>
   onDidChange (store (run example_imported duplicate_attach_calls example_viewlet) 1) = [0] \<and>
   onDidChange (store (run example_imported duplicate_attach_calls example_viewlet) 4) = [1] \<and>
   panelListeners (run example_imported duplicate_attach_calls example_viewlet) ''variables'' =
     Some (Listener 4 1) \<and>
   panels (removePanels [1] (run example_imported duplicate_attach_calls example_viewlet)) =
     [4] \<and>
   trace (removePanels [1] (run example_imported duplicate_attach_calls example_viewlet)) =
     trace (run example_imported duplicate_attach_calls example_viewlet) @
     [Disposed (Listener 4 1)] \<and>
   onDidChange
     (store (removePanels [1] (run example_imported duplicate_attach_calls example_viewlet)) 1) =
     [0] \<and>
   onDidChange
     (store (removePanels [1] (run example_imported duplicate_attach_calls example_viewlet)) 4) =
     []"
  by (simp add: duplicate_attach_calls_def eval_defs)

text \<open>
  Claim C1, as amended. Whenever the recomputation runs while a breakpoints panel is
  remembered, it sets that panel's \<open>maximumBodySize\<close> to positive infinity if every
  attached panel other than it is collapsed, and to its \<open>minimumBodySize\<close> otherwise, and
  changes nothing else; while none is remembered it changes nothing. The "changed" event
  of a panel runs the recomputation exactly when the panel holds a live subscription, and
  does nothing otherwise. The event of a panel that \<open>addPanels\<close> attached without the
  breakpoints id, at any moment since the viewlet was created, runs the recomputation
  from that call on, for as long as no \<open>removePanels\<close> is called with a panel of its id.
  The recomputation also runs when \<open>addPanels\<close> attaches a panel with the breakpoints
  id: the last such panel of the call is remembered and sized, and stays remembered
  until a later call attaches a panel with the breakpoints id. Attaching panels without
  the breakpoints id runs no recomputation: it changes neither the remembered panel nor
  any maximum body size.
\<close>

theorem breakpoints_sizing:
  "(breakpointView v = Some b \<longrightarrow>
      updateBreakpointsMaxSize v =
        v\<lparr>store := (store v)(b := (store v b)\<lparr>maximumBodySize := breakpoints_maximum v b\<rparr>)\<rparr>) \<and>
   (breakpointView u = None \<longrightarrow> updateBreakpointsMaxSize u = u) \<and>
   fire_onDidChange q v =
     (if onDidChange (store v q) = [] then v else updateBreakpointsMaxSize v) \<and>
   (e \<in> set es \<and> \<not> is_breakpoints K (run K cs (new_DebugViewlet st loc reg sto)) e \<and>
    uncancelled K ds (addPanels K es (run K cs (new_DebugViewlet st loc reg sto))) (panel e) \<longrightarrow>
      fire_onDidChange (panel e)
        (run K ds (addPanels K es (run K cs (new_DebugViewlet st loc reg sto)))) =
      updateBreakpointsMaxSize
        (run K ds (addPanels K es (run K cs (new_DebugViewlet st loc reg sto))))) \<and>
   (list_ex (is_breakpoints K v) bs \<longrightarrow>
      breakpointView (addPanels K bs v) = Some (panel (last (filter (is_breakpoints K v) bs))) \<and>
      sized (addPanels K bs v)) \<and>
   (list_ex (is_breakpoints K v) bs \<and> no_breakpoints_attached K ns (addPanels K bs v) \<longrightarrow>
      breakpointView (run K ns (addPanels K bs v)) =
        Some (panel (last (filter (is_breakpoints K v) bs)))) \<and>
   (list_all (\<lambda>e. \<not> is_breakpoints K v e) fs \<longrightarrow>
      breakpointView (addPanels K fs v) = breakpointView v \<and>
      maximumBodySize (store (addPanels K fs v) p) = maximumBodySize (store v p))"
proof -
  have "list_all (\<lambda>e. is_breakpoints K v e \<longrightarrow> panel e \<noteq> p) fs"
    if "list_all (\<lambda>e. \<not> is_breakpoints K v e) fs"
    using that by (simp add: list_all_iff)
  moreover have "\<not> list_ex (is_breakpoints K v) fs"
    if "list_all (\<lambda>e. \<not> is_breakpoints K v e) fs"
    using that by (simp add: list_all_iff list_ex_iff)
  moreover have "breakpointView (run K ns (addPanels K bs v)) =
      Some (panel (last (filter (is_breakpoints K v) bs)))"
    if "list_ex (is_breakpoints K v) bs" and "no_breakpoints_attached K ns (addPanels K bs v)"
    using that by (simp add: run_keeps_breakpointView addPanels_breakpointView)
  moreover note attached_sibling_fires [of e es K cs st loc reg sto ds] fire_exact [of q v]
  ultimately show ?thesis
    by (simp add: update_assigns update_none addPanels_breakpointView addPanels_sized
        addPanels_maximum)
qed

text \<open>
  The theorem at the state with the breakpoints panel 0 and the expanded sibling 1
  attached together. There the maximum of the breakpoints panel is its minimum, and
  collapsing the sibling makes it unbounded.
\<close>

theorem breakpoints_sizing_witness:
  "breakpointView (run example_imported attached_calls example_viewlet) = Some 0 \<and>
   breakpointView example_viewlet = None \<and>
   example_arg 1 \<in> set [example_arg 0, example_arg 1] \<and>
   \<not> is_breakpoints example_imported (run example_imported [] example_viewlet) (example_arg 1) \<and>
   uncancelled example_imported kept_calls
     (addPanels example_imported [example_arg 0, example_arg 1]
        (run example_imported [] example_viewlet)) (panel (example_arg 1)) \<and>
   list_ex (is_breakpoints example_imported (run example_imported attached_calls example_viewlet))
     [example_arg 3] \<and>
   no_breakpoints_attached example_imported kept_calls
     (addPanels example_imported [example_arg 3]
        (run example_imported attached_calls example_viewlet)) \<and>
   list_all
     (\<lambda>e. \<not> is_breakpoints example_imported
              (run example_imported attached_calls example_viewlet) e)
     [example_arg 2] \<and>
   updateBreakpointsMaxSize example_viewlet = example_viewlet \<and>
   fire_onDidChange (panel (example_arg 1))
     (run example_imported kept_calls
        (addPanels example_imported [example_arg 0, example_arg 1]
           (run example_imported [] example_viewlet))) =
   updateBreakpointsMaxSize
     (run example_imported kept_calls
        (addPanels example_imported [example_arg 0, example_arg 1]
           (run example_imported [] example_viewlet))) \<and>
   sized (addPanels example_imported [example_arg 3]
     (run example_imported attached_calls example_viewlet)) \<and>
   breakpointView (run example_imported kept_calls
     (addPanels example_imported [example_arg 3]
        (run example_imported attached_calls example_viewlet))) =
     Some (panel (last (filter
       (is_breakpoints example_imported (run example_imported attached_calls example_viewlet))
       [example_arg 3]))) \<and>
   breakpointView (addPanels example_imported [example_arg 2]
     (run example_imported attached_calls example_viewlet)) =
     breakpointView (run example_imported attached_calls example_viewlet) \<and>
   maximumBodySize (store (run example_imported attached_calls example_viewlet) 0) = Pixels 100 \<and>
   maximumBodySize
     (store (setExpanded 1 False (run example_imported attached_calls example_viewlet)) 0) =
     POSITIVE_INFINITY"
proof -
  let ?v = "run example_imported attached_calls example_viewlet"
  let ?w = "addPanels example_imported [example_arg 0, example_arg 1]
      (run example_imported [] example_viewlet)"
  have 1: "breakpointView ?v = Some 0"
    by (simp add: attached_calls_def eval_defs)
  have 2: "breakpointView example_viewlet = None"
    by (simp add: eval_defs)
  have 3: "example_arg 1 \<in> set [example_arg 0, example_arg 1]"
    by simp
  have 4: "\<not> is_breakpoints example_imported (run example_imported [] example_viewlet)
      (example_arg 1)"
    by (simp add: is_breakpoints_def eval_defs)
  have 5: "uncancelled example_imported kept_calls ?w (panel (example_arg 1))"
    by (simp add: kept_calls_def eval_defs)
  have 6: "list_ex (is_breakpoints example_imported ?v) [example_arg 3]"
    by (simp add: attached_calls_def eval_defs is_breakpoints_def)
  have 7: "no_breakpoints_attached example_imported kept_calls
      (addPanels example_imported [example_arg 3] ?v)"
    by (simp add: kept_calls_def attached_calls_def is_breakpoints_def eval_defs)
  have 8: "list_all (\<lambda>e. \<not> is_breakpoints example_imported ?v e) [example_arg 2]"
    by (simp add: attached_calls_def eval_defs is_breakpoints_def)
  have 9: "maximumBodySize (store ?v 0) = Pixels 100"
    by (simp add: attached_calls_def eval_defs)
  have 10: "maximumBodySize (store (setExpanded 1 False ?v) 0) = POSITIVE_INFINITY"
    by (simp add: attached_calls_def eval_defs)
  note th = breakpoints_sizing [where v = ?v and b = 0 and u = example_viewlet and q = 1
      and K = example_imported and cs = "[]" and st = Running and loc = "''docked''"
      and reg = "\<lambda>m. []" and sto = example_store
      and es = "[example_arg 0, example_arg 1]" and e = "example_arg 1" and ds = kept_calls
      and bs = "[example_arg 3]" and ns = kept_calls and fs = "[example_arg 2]" and p = 0,
      folded example_viewlet_def]
  from th 2 have 11: "updateBreakpointsMaxSize example_viewlet = example_viewlet"
    by blast
  from th 3 4 5
  have 12: "fire_onDidChange (panel (example_arg 1)) (run example_imported kept_calls ?w) =
      updateBreakpointsMaxSize (run example_imported kept_calls ?w)"
    by blast
  from th 6 have 13: "sized (addPanels example_imported [example_arg 3] ?v)"
    by blast
  from th 6 7
  have 14: "breakpointView (run example_imported kept_calls
      (addPanels example_imported [example_arg 3] ?v)) =
      Some (panel (last (filter (is_breakpoints example_imported ?v) [example_arg 3])))"
    by blast
  from th 8
  have 15: "breakpointView (addPanels example_imported [example_arg 2] ?v) = breakpointView ?v"
    by blast
  show ?thesis
    by (intro conjI) (fact 1 2 3 4 5 6 7 8 9 10 11 12 13 14 15)+
qed

text \<open>
  Claim C1 as stated fails for the attach of a sibling, and for the event of a sibling
  whose subscription was disposed. After the breakpoints panel is attached alone and the
  expanded panel 1 is attached by a later call, the maximum of the breakpoints panel is
  still unbounded, where a recomputation would have set it to the minimum of 100. After
  the panels 0 and 1 are attached and \<open>removePanels\<close> is called with the detached panel
  4, which has the id of panel 1, panel 1 is still attached but its event runs nothing:
  when it is collapsed, the maximum of the breakpoints panel stays 100, where a
  recomputation would have made it unbounded.
\<close>

theorem breakpoints_sizing_trigger_counterexample:
  "breakpointView (run example_imported late_sibling_calls example_viewlet) = Some 0 \<and>
   panels (run example_imported late_sibling_calls example_viewlet) = [0, 1] \<and>
   isExpanded (store (run example_imported late_sibling_calls example_viewlet) 1) \<and>
   maximumBodySize (store (run example_imported late_sibling_calls example_viewlet) 0) =
     POSITIVE_INFINITY \<and>
   minimumBodySize (store (run example_imported late_sibling_calls example_viewlet) 0) =
     Pixels 100 \<and>
   maximumBodySize
     (store (updateBreakpointsMaxSize
        (run example_imported late_sibling_calls example_viewlet)) 0) = Pixels 100 \<and>
   \<not> sized (run example_imported late_sibling_calls example_viewlet) \<and>
   breakpointView (run example_imported cancelled_calls example_viewlet) = Some 0 \<and>
   panels (run example_imported cancelled_calls example_viewlet) = [0, 1] \<and>
   panel_id (store (run example_imported cancelled_calls example_viewlet) 1) \<noteq>
     BREAKPOINTS_VIEW_ID example_imported \<and>
   \<not> isExpanded (store (run example_imported cancelled_calls example_viewlet) 1) \<and>
   onDidChange (store (run example_imported cancelled_calls example_viewlet) 1) = [] \<and>
   fire_onDidChange 1 (run example_imported cancelled_calls example_viewlet) =
     run example_imported cancelled_calls example_viewlet \<and>
   maximumBodySize (store (run example_imported cancelled_calls example_viewlet) 0) =
     Pixels 100 \<and>
   maximumBodySize
     (store (updateBreakpointsMaxSize
        (run example_imported cancelled_calls example_viewlet)) 0) = POSITIVE_INFINITY \<and>
   \<not> sized (run example_imported cancelled_calls example_viewlet)"
  by (simp add: late_sibling_calls_def cancelled_calls_def eval_defs sized_def
      breakpoints_maximum_def)

text \<open>
  Claim C10, as amended. \<open>removePanels\<close> leaves the remembered breakpoints panel
  unchanged, also when that panel is among the panels removed. After it, for as long as
  no \<open>addPanels\<close> attaches a panel with the breakpoints id, the same panel stays
  remembered, every recomputation assigns to it the maximum of the sizing rule, and the
  "changed" event of a panel runs such a recomputation exactly when the panel holds a
  live subscription; under the contract of the view framework on ids, the event of every
  attached sibling assigns that maximum to it. An attach triggers a recomputation only for the
  panels that it attaches with the breakpoints id: the last of them replaces the
  remembered panel, each of them is assigned its maximum by the sizing rule, and the
  maximum of every other panel, the detached breakpoints panel among them, is left
  unchanged.
\<close>

theorem removePanels_keeps_breakpointView:
  "breakpointView (removePanels ps v) = breakpointView v \<and>
   (breakpointView v = Some b \<and> no_breakpoints_attached K ds (removePanels ps v) \<longrightarrow>
      breakpointView (run K ds (removePanels ps v)) = Some b \<and>
      maximumBodySize (store (updateBreakpointsMaxSize (run K ds (removePanels ps v))) b) =
        breakpoints_maximum (run K ds (removePanels ps v)) b \<and>
      fire_onDidChange q (run K ds (removePanels ps v)) =
        (if onDidChange (store (run K ds (removePanels ps v)) q) = []
         then run K ds (removePanels ps v)
         else updateBreakpointsMaxSize (run K ds (removePanels ps v)))) \<and>
   (calls_ok K (cs @ RemovePanels ps # ds) (new_DebugViewlet st loc reg sto) \<and>
    breakpointView (run K cs (new_DebugViewlet st loc reg sto)) = Some b \<and>
    no_breakpoints_attached K ds
      (run K (cs @ [RemovePanels ps]) (new_DebugViewlet st loc reg sto)) \<longrightarrow>
      list_all
        (\<lambda>q. maximumBodySize
               (store (fire_onDidChange q
                  (run K (cs @ RemovePanels ps # ds) (new_DebugViewlet st loc reg sto))) b) =
             breakpoints_maximum
               (run K (cs @ RemovePanels ps # ds) (new_DebugViewlet st loc reg sto)) b)
        (siblings K (run K (cs @ RemovePanels ps # ds) (new_DebugViewlet st loc reg sto)))) \<and>
   (list_ex (is_breakpoints K v) es \<longrightarrow>
      breakpointView (addPanels K es v) = Some (panel (last (filter (is_breakpoints K v) es))) \<and>
      sized (addPanels K es v)) \<and>
   (e \<in> set es \<and> is_breakpoints K v e \<longrightarrow>
      maximumBodySize (store (addPanels K es v) (panel e)) =
        breakpoints_maximum (addPanels K es v) (panel e)) \<and>
   (list_all (\<lambda>e. is_breakpoints K v e \<longrightarrow> panel e \<noteq> p) fs \<longrightarrow>
      maximumBodySize (store (addPanels K fs v) p) = maximumBodySize (store v p))"
proof -
  have later: "breakpointView (run K ds (removePanels ps v)) = Some b \<and>
      maximumBodySize (store (updateBreakpointsMaxSize (run K ds (removePanels ps v))) b) =
        breakpoints_maximum (run K ds (removePanels ps v)) b \<and>
      fire_onDidChange q (run K ds (removePanels ps v)) =
        (if onDidChange (store (run K ds (removePanels ps v)) q) = []
         then run K ds (removePanels ps v)
         else updateBreakpointsMaxSize (run K ds (removePanels ps v)))"
    if "breakpointView v = Some b" and "no_breakpoints_attached K ds (removePanels ps v)"
  proof -
    have "breakpointView (run K ds (removePanels ps v)) = Some b"
      using that by (simp add: run_keeps_breakpointView removePanels_breakpointView)
    then show ?thesis
      using fire_exact [of q "run K ds (removePanels ps v)"] by (simp add: update_assigns)
  qed
  note after_removePanels_siblings [of K cs ps ds st loc reg sto b]
    addPanels_assigned [of e es K v]
  with later show ?thesis
    by (simp add: removePanels_breakpointView addPanels_breakpointView addPanels_sized
        addPanels_maximum)
qed

text \<open>
  The theorem at the state with panels 0 and 1 attached, from which the breakpoints
  panel 0 is removed; afterwards the sibling is collapsed and the watch view attached.
  Panel 0 stays remembered, and the events of the siblings assign its maximum.
\<close>

theorem removePanels_keeps_breakpointView_witness:
  "breakpointView (run example_imported attached_calls example_viewlet) = Some 0 \<and>
   no_breakpoints_attached example_imported after_detach_calls
     (removePanels [0] (run example_imported attached_calls example_viewlet)) \<and>
   calls_ok example_imported (attached_calls @ RemovePanels [0] # after_detach_calls)
     example_viewlet \<and>
   no_breakpoints_attached example_imported after_detach_calls
     (run example_imported (attached_calls @ [RemovePanels [0]]) example_viewlet) \<and>
   list_ex (is_breakpoints example_imported (run example_imported attached_calls example_viewlet))
     [example_arg 3] \<and>
   example_arg 3 \<in> set [example_arg 3] \<and>
   is_breakpoints example_imported (run example_imported attached_calls example_viewlet)
     (example_arg 3) \<and>
   list_all
     (\<lambda>e. is_breakpoints example_imported
             (run example_imported attached_calls example_viewlet) e \<longrightarrow> panel e \<noteq> 0)
     [example_arg 2] \<and>
   0 \<notin> set (panels (run example_imported after_detach_calls
     (removePanels [0] (run example_imported attached_calls example_viewlet)))) \<and>
   breakpointView (run example_imported after_detach_calls
     (removePanels [0] (run example_imported attached_calls example_viewlet))) = Some 0 \<and>
   maximumBodySize
     (store (updateBreakpointsMaxSize (run example_imported after_detach_calls
        (removePanels [0] (run example_imported attached_calls example_viewlet)))) 0) =
     breakpoints_maximum (run example_imported after_detach_calls
        (removePanels [0] (run example_imported attached_calls example_viewlet))) 0 \<and>
   list_all
     (\<lambda>q. maximumBodySize
            (store (fire_onDidChange q
               (run example_imported (attached_calls @ RemovePanels [0] # after_detach_calls)
                  example_viewlet)) 0) =
          breakpoints_maximum
            (run example_imported (attached_calls @ RemovePanels [0] # after_detach_calls)
               example_viewlet) 0)
     (siblings example_imported
        (run example_imported (attached_calls @ RemovePanels [0] # after_detach_calls)
           example_viewlet)) \<and>
   sized (addPanels example_imported [example_arg 3]
     (run example_imported attached_calls example_viewlet)) \<and>
   maximumBodySize (store (addPanels example_imported [example_arg 3]
     (run example_imported attached_calls example_viewlet)) (panel (example_arg 3))) =
     breakpoints_maximum (addPanels example_imported [example_arg 3]
       (run example_imported attached_calls example_viewlet)) (panel (example_arg 3)) \<and>
   maximumBodySize (store (addPanels example_imported [example_arg 2]
     (run example_imported attached_calls example_viewlet)) 0) =
     maximumBodySize (store (run example_imported attached_calls example_viewlet) 0)"
proof -
  let ?v = "run example_imported attached_calls example_viewlet"
  let ?w = "run example_imported after_detach_calls (removePanels [0] ?v)"
  let ?cs = "attached_calls @ RemovePanels [0] # after_detach_calls"
  have 1: "breakpointView ?v = Some 0"
    by (simp add: attached_calls_def eval_defs)
  have 2: "no_breakpoints_attached example_imported after_detach_calls (removePanels [0] ?v)"
    by (simp add: after_detach_calls_def attached_calls_def is_breakpoints_def eval_defs)
  have 3: "calls_ok example_imported ?cs example_viewlet"
    by (simp add: after_detach_calls_def attached_calls_def eval_defs)
  have 4: "no_breakpoints_attached example_imported after_detach_calls
      (run example_imported (attached_calls @ [RemovePanels [0]]) example_viewlet)"
    by (simp add: after_detach_calls_def attached_calls_def is_breakpoints_def eval_defs)
  have 5: "list_ex (is_breakpoints example_imported ?v) [example_arg 3]"
    by (simp add: attached_calls_def eval_defs is_breakpoints_def)
  have 6: "example_arg 3 \<in> set [example_arg 3]"
    by simp
  have 7: "is_breakpoints example_imported ?v (example_arg 3)"
    by (simp add: attached_calls_def eval_defs is_breakpoints_def)
  have 8: "list_all (\<lambda>e. is_breakpoints example_imported ?v e \<longrightarrow> panel e \<noteq> 0) [example_arg 2]"
    by (simp add: attached_calls_def eval_defs is_breakpoints_def)
  have 9: "0 \<notin> set (panels ?w)"
    by (simp add: after_detach_calls_def attached_calls_def eval_defs)
  note th = removePanels_keeps_breakpointView [where ps = "[0]" and v = ?v and b = 0 and q = 1
        and K = example_imported and cs = attached_calls and ds = after_detach_calls
        and st = Running and loc = "''docked''" and reg = "\<lambda>m. []" and sto = example_store
        and es = "[example_arg 3]" and e = "example_arg 3" and fs = "[example_arg 2]" and p = 0,
        folded example_viewlet_def]
  from th 1 2 have 10: "breakpointView ?w = Some 0"
    by blast
  from th 1 2
  have 11: "maximumBodySize (store (updateBreakpointsMaxSize ?w) 0) = breakpoints_maximum ?w 0"
    by blast
  from th 1 3 4
  have 12: "list_all
     (\<lambda>q. maximumBodySize
            (store (fire_onDidChange q (run example_imported ?cs example_viewlet)) 0) =
          breakpoints_maximum (run example_imported ?cs example_viewlet) 0)
     (siblings example_imported (run example_imported ?cs example_viewlet))"
    by blast
  from th 5 have 13: "sized (addPanels example_imported [example_arg 3] ?v)"
    by blast
  from th 6 7
  have 14: "maximumBodySize (store (addPanels example_imported [example_arg 3] ?v)
        (panel (example_arg 3))) =
      breakpoints_maximum (addPanels example_imported [example_arg 3] ?v)
        (panel (example_arg 3))"
    by blast
  from th 8
  have 15: "maximumBodySize (store (addPanels example_imported [example_arg 2] ?v) 0) =
      maximumBodySize (store ?v 0)"
    by blast
  show ?thesis
    by (intro conjI) (fact 1 2 3 4 5 6 7 8 9 10 11 12 13 14 15)+
qed

text \<open>
  Claim C10 as stated fails once a panel with the breakpoints id is attached again.
  After the breakpoints panel 0 and its sibling are detached, panel 0 is still
  remembered with the maximum 100, and a recomputation for it would assign positive
  infinity; attaching the new breakpoints panel 3 triggers a recomputation, which
  assigns to panel 3, and the detached panel 0 keeps the maximum 100. In the same way,
  after panel 0 is detached and panel 3 is attached beside the sibling 1, the later
  event of the sibling assigns to panel 3 and leaves the detached panel 0 at 100.
\<close>

theorem later_recomputation_counterexample:
  "calls_ok example_imported reattached_calls example_viewlet \<and>
   breakpointView (run example_imported detached_calls example_viewlet) = Some 0 \<and>
   0 \<notin> set (panels (run example_imported detached_calls example_viewlet)) \<and>
   maximumBodySize (store (run example_imported detached_calls example_viewlet) 0) = Pixels 100 \<and>
   breakpoints_maximum (run example_imported detached_calls example_viewlet) 0 =
     POSITIVE_INFINITY \<and>
   run example_imported reattached_calls example_viewlet =
     addPanels example_imported [example_arg 3]
       (run example_imported detached_calls example_viewlet) \<and>
   breakpointView (run example_imported reattached_calls example_viewlet) = Some 3 \<and>
   panels (run example_imported reattached_calls example_viewlet) = [3] \<and>
   maximumBodySize (store (run example_imported reattached_calls example_viewlet) 3) =
     POSITIVE_INFINITY \<and>
   maximumBodySize (store (run example_imported reattached_calls example_viewlet) 0) =
     Pixels 100 \<and>
   breakpoints_maximum (run example_imported reattached_calls example_viewlet) 0 =
     POSITIVE_INFINITY \<and>
   calls_ok example_imported later_event_calls example_viewlet \<and>
   panels (run example_imported later_event_calls example_viewlet) = [1, 3] \<and>
   breakpointView (run example_imported later_event_calls example_viewlet) = Some 3 \<and>
   onDidChange (store (run example_imported later_event_calls example_viewlet) 1) = [0] \<and>
   maximumBodySize
     (store (fire_onDidChange 1 (run example_imported later_event_calls example_viewlet)) 3) =
     POSITIVE_INFINITY \<and>
   maximumBodySize
     (store (fire_onDidChange 1 (run example_imported later_event_calls example_viewlet)) 0) =
     Pixels 100 \<and>
   breakpoints_maximum (run example_imported later_event_calls example_viewlet) 0 =
     POSITIVE_INFINITY"
proof -
  have "run example_imported reattached_calls example_viewlet =
      addPanels example_imported [example_arg 3]
        (run example_imported detached_calls example_viewlet)"
    by (simp add: reattached_calls_def run_def)
  then show ?thesis
    by (simp add: detached_calls_def eval_defs breakpoints_maximum_def reattached_calls_def
        later_event_calls_def)
qed

end
